theory Spec2Isabelle
  imports Main "HOL-Library.Word" "HOL-Library.Sublist"
begin

unbundle bit_operations_syntax

section \<open>The application manager of RebbleOS (rcore/appmanager.c)\<close>

text \<open>
  The development embeds the C functions of \<^verbatim>\<open>rcore/appmanager.c\<close>: the manifest (a
  singly linked list of calloc'ed \<^verbatim>\<open>App\<close> records), the flash scanner, the control surface
  (start, quit, the posters), the event loop and the manager thread with its dynamic
  loader. Pointers are addresses into an explicit store, 32-bit quantities are
  \<open>32 word\<close>, the arena \<^verbatim>\<open>app_stack_heap\<close> is a byte list, and the calls into FreeRTOS and
  the kernel log are recorded in a trace.
\<close>

subsection \<open>Machine types and C strings\<close>

type_synonym u8 = "8 word"
type_synonym u32 = "32 word"
type_synonym addr = nat

text \<open>
  A \<^verbatim>\<open>char *\<close> argument is the list of characters found from the pointer onwards; the
  string it denotes ends before the first NUL, and reading past the end of the list reads
  the terminator.
\<close>

definition NUL :: char where
  "NUL = CHR 0x00"

definition cstr :: "string \<Rightarrow> string" where
  "cstr s = takeWhile (\<lambda>c. c \<noteq> NUL) s"

definition strlen :: "string \<Rightarrow> nat" where
  "strlen s = length (cstr s)"

definition char_at0 :: "string \<Rightarrow> char" where
  "char_at0 s = (case s of [] \<Rightarrow> NUL | c # _ \<Rightarrow> c)"

fun strncmp :: "string \<Rightarrow> string \<Rightarrow> nat \<Rightarrow> int" where
  "strncmp s1 s2 0 = 0"
| "strncmp s1 s2 (Suc n) =
     (if char_at0 s1 \<noteq> char_at0 s2
      then int (of_char (char_at0 s1)) - int (of_char (char_at0 s2))
      else if char_at0 s1 = NUL then 0
      else strncmp (tl s1) (tl s2) n)"

text \<open>\<^verbatim>\<open>strcpy\<close> into a buffer of \<^verbatim>\<open>strlen(name) + 1\<close> bytes: the copy is the string itself.\<close>

definition strcpy :: "string \<Rightarrow> string" where
  "strcpy src = cstr src"

lemma cstr_Nil: "cstr [] = []"
  by (simp add: cstr_def)

lemma cstr_Cons: "cstr (c # s) = (if c = NUL then [] else c # cstr s)"
  by (simp add: cstr_def)

lemma cstr_idem: "cstr (cstr s) = cstr s"
  by (induction s) (simp_all add: cstr_Nil cstr_Cons)

lemma cstr_padded:
  assumes "NUL \<notin> set nm" and "0 < k"
  shows "cstr (nm @ replicate k NUL @ rest) = nm"
proof -
  from assms(2) obtain j where "k = Suc j"
    by (cases k) simp_all
  with assms(1) show ?thesis
    by (induction nm) (auto simp add: cstr_Cons)
qed

lemma cstr_NULs: "0 < k \<Longrightarrow> cstr (replicate k NUL @ rest) = []"
  by (cases k) (simp_all add: cstr_Cons)

lemma of_char_diff_zero:
  "(int (of_char (a::char)) - int (of_char (b::char)) = 0) = (a = b)"
proof -
  have "(of_char a = (of_char b :: nat)) = (a = b)"
    by simp
  then show ?thesis
    by linarith
qed

lemma strncmp_prefix:
  "(strncmp a b (strlen a) = 0) = prefix (cstr a) (cstr b)"
proof (induction a arbitrary: b)
  case Nil
  show ?case
    by (simp add: strlen_def cstr_Nil)
next
  case (Cons c a)
  show ?case
  proof (cases "c = NUL")
    case True
    then show ?thesis
      by (simp add: strlen_def cstr_Cons)
  next
    case cnz: False
    show ?thesis
    proof (cases b)
      case Nil
      with cnz show ?thesis
        by (simp add: strlen_def cstr_Cons cstr_Nil char_at0_def of_char_diff_zero)
    next
      case (Cons d b')
      have ih: "(strncmp a b' (length (cstr a)) = 0) = prefix (cstr a) (cstr b')"
        using Cons.IH [of b'] by (simp add: strlen_def)
      from cnz Cons ih show ?thesis
        by (auto simp add: strlen_def cstr_Cons char_at0_def of_char_diff_zero)
    qed
  qed
qed

subsection \<open>Data model\<close>

text \<open>
  Modelled from the spec: the declarations of \<^verbatim>\<open>appmanager.h\<close> and \<^verbatim>\<open>rebbleos.h\<close> are not
  part of the source file. The application types are the three the spec lists; the header
  carries the fields the spec lists, every integer field read zero-extended to 32 bits (as
  C's integer conversions do in the arithmetic of the loader); button and tick payloads
  are opaque handles.
\<close>

datatype app_type = APP_TYPE_SYSTEM | APP_TYPE_FACE | APP_TYPE_USER

datatype entry_point = systemapp_main | simple_main | nivz_main

datatype log_level = APP_LOG_LEVEL_ERROR | APP_LOG_LEVEL_INFO | APP_LOG_LEVEL_DEBUG

record Version =
  major :: u8
  minor :: u8

record ApplicationHeader =
  header :: string
  sdk_version :: Version
  app_version :: Version
  app_size :: u32
  offset :: u32
  crc :: u32
  name :: string
  company :: string
  icon_resource_id :: u32
  sym_table_addr :: u32
  flags :: u32
  reloc_entries_count :: u32
  virtual_size :: u32

text \<open>
  The members \<^verbatim>\<open>header\<close>, \<^verbatim>\<open>name\<close> and \<^verbatim>\<open>company\<close> are character arrays inside the structure
  (8, 32 and 32 bytes). The code hands them to \<^verbatim>\<open>strlen\<close>, \<^verbatim>\<open>strcpy\<close> and the \<^verbatim>\<open>%s\<close> of the log
  as pointers, and the characters found from such a pointer onwards are those of the
  member followed by the bytes of the members behind it: a member that holds no NUL is
  read on into the next one. Modelled from the spec: the order of the members (the table
  of the on-flash header; \<^verbatim>\<open>appmanager.h\<close> is not part of the source file), each integer
  little-endian, \<^verbatim>\<open>app_size\<close> in two bytes and the others in four. The list ends behind
  \<^verbatim>\<open>reloc_entries_count\<close>.
\<close>

definition le_chars :: "nat \<Rightarrow> u32 \<Rightarrow> string" where
  "le_chars n w = map (\<lambda>k. char_of (unat (drop_bit (8 * k) w))) [0..<n]"

definition company_chars :: "ApplicationHeader \<Rightarrow> string" where
  "company_chars hdr =
     company hdr @ le_chars 4 (icon_resource_id hdr) @ le_chars 4 (sym_table_addr hdr) @
     le_chars 4 (flags hdr) @ le_chars 4 (reloc_entries_count hdr)"

definition name_chars :: "ApplicationHeader \<Rightarrow> string" where
  "name_chars hdr = name hdr @ company_chars hdr"

definition header_chars :: "ApplicationHeader \<Rightarrow> string" where
  "header_chars hdr =
     header hdr @
     [char_of (unat (major (sdk_version hdr))), char_of (unat (minor (sdk_version hdr))),
      char_of (unat (major (app_version hdr))), char_of (unat (minor (app_version hdr)))] @
     le_chars 2 (app_size hdr) @ le_chars 4 (offset hdr) @ le_chars 4 (crc hdr) @
     name_chars hdr"

text \<open>
  \<^verbatim>\<open>struct App\<close>: the fields \<^verbatim>\<open>name\<close>, \<^verbatim>\<open>main\<close>, \<^verbatim>\<open>type\<close>, \<^verbatim>\<open>header\<close>, \<^verbatim>\<open>next\<close>, \<^verbatim>\<open>slot_id\<close> and
  \<^verbatim>\<open>is_internal\<close>. A pointer is \<open>None\<close> (NULL) or an address of the store.
\<close>

record App =
  app_name :: string
  app_main :: "entry_point option"
  app_type :: app_type
  app_header :: "ApplicationHeader option"
  app_next :: "addr option"
  app_slot_id :: u8
  app_is_internal :: bool

datatype message_type = APP_BUTTON | APP_QUIT | APP_TICK

record ButtonMessage =
  button_callback :: nat
  clickref :: nat
  button_context :: nat

record TickMessage =
  tick_callback :: nat
  tick_time :: nat
  tick_units :: nat

datatype payload_ptr =
    NULL_payload
  | Name_payload string
  | Button_payload ButtonMessage
  | Tick_payload TickMessage

text \<open>
  \<^verbatim>\<open>struct AppMessage\<close>. \<^verbatim>\<open>appmanager_app_start\<close> fills in the payload only, so the type id of
  a start request is indeterminate: \<open>None\<close>.
\<close>

record AppMessage =
  message_type_id :: "message_type option"
  payload :: payload_ptr

text \<open>A FreeRTOS queue: its length (the capacity given to \<^verbatim>\<open>xQueueCreate\<close>) and its items.\<close>

record queue =
  q_length :: nat
  q_items :: "AppMessage list"

datatype task_code = Manager_thread | Host_function "entry_point option" | Arena_code u32

datatype stack_ref = Manager_stack | Arena_stack u32

text \<open>
  The arguments of \<^verbatim>\<open>xTaskCreateStatic\<close>: code, name, stack depth in words, priority above
  \<^verbatim>\<open>tskIDLE_PRIORITY\<close>, stack buffer.
\<close>

record task =
  task_code :: task_code
  task_name :: string
  task_stack_depth :: u32
  task_priority :: nat
  task_stack :: stack_ref

datatype queue_id = Message_queue | Thread_queue

datatype log_arg = Str string | Num nat

text \<open>
  The calls that leave the module, in the order they are made: the kernel log (module,
  level, format, arguments), the queue primitives (with the ticks to wait and whether the
  item was queued), the task primitives, \<^verbatim>\<open>appHeapInit\<close> (size, byte offset of the heap in
  the arena), the failed assertion, the reads of the flash driver (slot; slot and byte
  count), and the calls of the event loop into the window, button and time services.
\<close>

datatype event =
    KERN_LOG string log_level string "log_arg list"
  | QueueCreate queue_id nat
  | QueueSendToBack queue_id AppMessage nat bool
  | QueueSendToBackFromISR queue_id AppMessage bool
  | QueueReset queue_id
  | TaskCreateStatic task
  | TaskDelete "task option"
  | AppHeapInit u32 u32
  | Assert_failed string
  | Flash_load_app_header u8
  | Flash_load_app u8 u32
  | Window_load_proc
  | Window_load_click_config
  | Window_single_click_subscribe
  | Window_dirty
  | Call_click_handler ButtonMessage
  | Call_tick_handler TickMessage
  | Button_unsubscribe_all
  | Time_service_unsubscribe

text \<open>
  What the source takes from its platform: the two size macros, the address of the arena
  \<^verbatim>\<open>app_stack_heap\<close>, the address of the symbol table \<^verbatim>\<open>sym\<close>, and the flash driver
  (\<^verbatim>\<open>flash_load_app_header\<close> by slot, \<^verbatim>\<open>flash_load_app\<close> by slot and byte offset).
\<close>

record platform =
  MAX_APP_MEMORY_SIZE :: u32
  MAX_APP_STACK_SIZE :: u32
  arena_base :: u32
  sym :: u32
  flash_load_app_header :: "u8 \<Rightarrow> ApplicationHeader"
  flash_app_byte :: "u8 \<Rightarrow> nat \<Rightarrow> u8"

text \<open>
  The state of the module: the store of \<^verbatim>\<open>App\<close> records with the next fresh address and
  the outcomes of the coming \<^verbatim>\<open>calloc\<close> calls (\<open>False\<close>: the call returns NULL; none left:
  it succeeds), the static variables of the file, the contents of the two queues, the
  arena, and the trace.
\<close>

record am_state =
  heap :: "addr \<rightharpoonup> App"
  brk :: addr
  allocs :: "bool list"
  app_manifest_head :: "addr option"
  running_app :: "addr option"
  app_task_handle :: "task option"
  app_thread_manager_task_handle :: "task option"
  app_message_queue :: queue
  app_thread_queue :: queue
  app_stack_heap :: "u8 list"
  trace :: "event list"

definition emit :: "event \<Rightarrow> am_state \<Rightarrow> am_state" where
  "emit e s = s\<lparr>trace := trace s @ [e]\<rparr>"

subsection \<open>The manifest store\<close>

definition calloc :: "am_state \<Rightarrow> addr option \<times> am_state" where
  "calloc s =
     (case allocs s of
        [] \<Rightarrow> (Some (brk s), s\<lparr>brk := Suc (brk s)\<rparr>)
      | ok # rest \<Rightarrow>
          if ok then (Some (brk s), s\<lparr>brk := Suc (brk s), allocs := rest\<rparr>)
          else (None, s\<lparr>allocs := rest\<rparr>))"

text \<open>
  \<^verbatim>\<open>_appmanager_create_app\<close>: two allocations, the record and its name; NULL if either
  fails. The store holds a record once its fields are written.
\<close>

definition appmanager_create_app ::
  "string \<Rightarrow> app_type \<Rightarrow> entry_point option \<Rightarrow> bool \<Rightarrow> u8 \<Rightarrow> am_state
     \<Rightarrow> addr option \<times> am_state" where
  "appmanager_create_app nm ty entry is_internal slot_id s =
     (case calloc s of
        (None, s1) \<Rightarrow> (None, s1)
      | (Some app, s1) \<Rightarrow>
          (case calloc s1 of
             (None, s2) \<Rightarrow> (None, s2)
           | (Some name_buf, s2) \<Rightarrow>
               (Some app,
                s2\<lparr>heap := (heap s2)(app \<mapsto>
                  \<lparr>app_name = strcpy nm, app_main = entry, app_type = ty,
                   app_header = None, app_next = None, app_slot_id = slot_id,
                   app_is_internal = is_internal\<rparr>)\<rparr>)))"

text \<open>
  The loop \<^verbatim>\<open>while(child->next) child = child->next;\<close> follows the store; on a cyclic chain
  it does not return.
\<close>

partial_function (option) last_node :: "(addr \<rightharpoonup> App) \<Rightarrow> addr \<Rightarrow> (addr \<times> App) option" where
  "last_node h child =
     (case h child of
        None \<Rightarrow> None
      | Some node \<Rightarrow>
          (case app_next node of
             None \<Rightarrow> Some (child, node)
           | Some nxt \<Rightarrow> last_node h nxt))"

definition appmanager_add_to_manifest :: "addr option \<Rightarrow> am_state \<Rightarrow> am_state option" where
  "appmanager_add_to_manifest app s =
     (case app_manifest_head s of
        None \<Rightarrow> Some (s\<lparr>app_manifest_head := app\<rparr>)
      | Some first \<Rightarrow>
          (case last_node (heap s) first of
             None \<Rightarrow> None
           | Some (child, node) \<Rightarrow>
               Some (s\<lparr>heap := (heap s)(child \<mapsto> node\<lparr>app_next := app\<rparr>)\<rparr>)))"

text \<open>The loop of \<^verbatim>\<open>appmanager_get_app\<close>: the first node whose name matches, or NULL.\<close>

partial_function (option) find_app ::
  "(addr \<rightharpoonup> App) \<Rightarrow> string \<Rightarrow> addr option \<Rightarrow> addr option option" where
  "find_app h query node =
     (case node of
        None \<Rightarrow> Some None
      | Some p \<Rightarrow>
          (case h p of
             None \<Rightarrow> None
           | Some r \<Rightarrow>
               if strncmp (app_name r) query (strlen (app_name r)) = 0 then Some (Some p)
               else find_app h query (app_next r)))"

definition appmanager_get_app :: "string \<Rightarrow> am_state \<Rightarrow> (addr option \<times> am_state) option" where
  "appmanager_get_app query s =
     (case find_app (heap s) query (app_manifest_head s) of
        None \<Rightarrow> None
      | Some (Some node) \<Rightarrow> Some (Some node, s)
      | Some None \<Rightarrow>
          Some (None, emit (KERN_LOG ''app'' APP_LOG_LEVEL_ERROR ''NO App Found %s''
                              [Str (cstr query)]) s))"

definition app_manager_get_apps_head :: "am_state \<Rightarrow> addr option" where
  "app_manager_get_apps_head s = app_manifest_head s"

text \<open>
  The manifest as a list: \<open>manifest h p as\<close> holds when following \<^verbatim>\<open>next\<close> from \<open>p\<close> visits
  exactly the addresses \<open>as\<close> and then NULL.
\<close>

fun manifest :: "(addr \<rightharpoonup> App) \<Rightarrow> addr option \<Rightarrow> addr list \<Rightarrow> bool" where
  "manifest h p [] = (p = None)"
| "manifest h p (a # as) =
     (p = Some a \<and> (case h a of None \<Rightarrow> False | Some r \<Rightarrow> manifest h (app_next r) as))"

definition name_matches :: "(addr \<rightharpoonup> App) \<Rightarrow> string \<Rightarrow> addr \<Rightarrow> bool" where
  "name_matches h query a =
     (case h a of None \<Rightarrow> False | Some r \<Rightarrow> prefix (cstr (app_name r)) (cstr query))"

text \<open>Every record of the store was handed out by \<^verbatim>\<open>calloc\<close>.\<close>

definition heap_ok :: "am_state \<Rightarrow> bool" where
  "heap_ok s = (\<forall>a \<in> dom (heap s). a < brk s)"

subsection \<open>Lists in the store\<close>

lemma manifest_unique: "manifest h p as \<Longrightarrow> manifest h p bs \<Longrightarrow> as = bs"
proof (induction as arbitrary: p bs)
  case Nil
  then show ?case by (cases bs) simp_all
next
  case (Cons a as)
  then show ?case
    by (cases bs) (auto split: option.splits)
qed

lemma manifest_in_dom: "manifest h p as \<Longrightarrow> a \<in> set as \<Longrightarrow> a \<in> dom h"
  by (induction as arbitrary: p) (auto split: option.splits)

lemma manifest_suffix: "manifest h p (xs @ ys) \<Longrightarrow> \<exists>q. manifest h q ys"
  by (induction xs arbitrary: p) (auto split: option.splits)

lemma manifest_head_notin_tail:
  assumes "h a = Some r" and "manifest h (app_next r) as"
  shows "a \<notin> set as"
proof
  assume "a \<in> set as"
  then obtain xs ys where as: "as = xs @ a # ys"
    by (auto simp add: in_set_conv_decomp)
  with assms(2) obtain q where "manifest h q (a # ys)"
    using manifest_suffix by blast
  with assms(1) have "manifest h (app_next r) ys"
    by simp
  with assms(2) have "as = ys"
    by (rule manifest_unique)
  with as show False
    by simp
qed

lemma manifest_distinct: "manifest h p as \<Longrightarrow> distinct as"
  by (induction as arbitrary: p) (auto split: option.splits dest: manifest_head_notin_tail)

lemma manifest_upd_outside:
  "a \<notin> set as \<Longrightarrow> manifest (h(a \<mapsto> r)) p as = manifest h p as"
  by (induction as arbitrary: p) (auto split: option.splits)

lemma last_node_manifest:
  "manifest h (Some p) as \<Longrightarrow>
     \<exists>r. last_node h p = Some (last as, r) \<and> h (last as) = Some r \<and> app_next r = None"
proof (induction as arbitrary: p)
  case Nil
  then show ?case by simp
next
  case (Cons a as)
  then obtain r where r: "p = a" "h a = Some r" "manifest h (app_next r) as"
    by (auto split: option.splits)
  show ?case
  proof (cases as)
    case Nil
    with r show ?thesis
      by (subst last_node.simps) simp
  next
    case (Cons b bs)
    with r have nxt: "app_next r = Some b"
      by simp
    with r Cons.IH [of b] obtain r' where
      "last_node h b = Some (last as, r')" "h (last as) = Some r'" "app_next r' = None"
      by auto
    with r nxt Cons show ?thesis
      by (subst last_node.simps) simp
  qed
qed

lemma manifest_snoc:
  assumes "manifest h p as" and "as \<noteq> []" and "h (last as) = Some r" and "q \<notin> set as"
    and "h q = Some rq" and "app_next rq = None"
  shows "manifest (h(last as \<mapsto> r\<lparr>app_next := Some q\<rparr>)) p (as @ [q])"
  using assms
proof (induction as arbitrary: p)
  case Nil
  then show ?case by simp
next
  case (Cons a as)
  then obtain ra where ra: "p = Some a" "h a = Some ra" "manifest h (app_next ra) as"
    by (auto split: option.splits)
  show ?case
  proof (cases "as = []")
    case True
    with Cons.prems ra show ?thesis
      by auto
  next
    case False
    let ?h = "h(last as \<mapsto> r\<lparr>app_next := Some q\<rparr>)"
    have "a \<notin> set as"
      using ra by (auto dest: manifest_head_notin_tail)
    with False have "a \<noteq> last as"
      using last_in_set by metis
    then have ha: "?h a = Some ra"
      using ra by simp
    have "h (last as) = Some r" and "q \<notin> set as"
      using Cons.prems False by simp_all
    with ra False Cons.prems(5,6) have "manifest ?h (app_next ra) (as @ [q])"
      by (intro Cons.IH)
    with ha ra have "manifest ?h p (a # (as @ [q]))"
      by (simp only: manifest.simps option.case simp_thms)
    moreover have "last (a # as) = last as" and "(a # as) @ [q] = a # (as @ [q])"
      using False by simp_all
    ultimately show ?thesis
      by (simp only:)
  qed
qed

lemma name_matches_Some:
  "h a = Some r \<Longrightarrow> name_matches h query a = (strncmp (app_name r) query (strlen (app_name r)) = 0)"
  by (simp add: name_matches_def strncmp_prefix)

lemma find_app_manifest:
  "manifest h p as \<Longrightarrow> find_app h query p = Some (List.find (name_matches h query) as)"
proof (induction as arbitrary: p)
  case Nil
  then show ?case
    by (subst find_app.simps) simp
next
  case (Cons a as)
  then obtain r where r: "p = Some a" "h a = Some r" "manifest h (app_next r) as"
    by (auto split: option.splits)
  with Cons.IH [of "app_next r"] show ?case
    by (subst find_app.simps) (simp add: name_matches_Some)
qed

subsection \<open>Creating and inserting records\<close>

text \<open>A record without its link to the next one.\<close>

definition unlinked :: "App \<Rightarrow> App" where
  "unlinked r = r\<lparr>app_next := None\<rparr>"

text \<open>The part of the state that allocation leaves alone.\<close>

definition statics ::
  "am_state \<Rightarrow> addr option \<times> addr option \<times> task option \<times> task option \<times> queue \<times> queue \<times> u8 list \<times> event list" where
  "statics s =
     (app_manifest_head s, running_app s, app_task_handle s, app_thread_manager_task_handle s,
      app_message_queue s, app_thread_queue s, app_stack_heap s, trace s)"

lemma calloc_cases:
  assumes "calloc s = (r, s1)"
  obtains (ok) "r = Some (brk s)" "s1 = s\<lparr>brk := Suc (brk s), allocs := tl (allocs s)\<rparr>"
    | (fail) "r = None" "s1 = s\<lparr>allocs := tl (allocs s)\<rparr>"
  using assms by (auto simp add: calloc_def split: list.splits if_splits)

lemma create_app_cases:
  assumes "appmanager_create_app nm ty entry internal slot s = (app, s1)"
  obtains (created) "app = Some (brk s)"
      "heap s1 = (heap s)(brk s \<mapsto>
         \<lparr>app_name = strcpy nm, app_main = entry, app_type = ty, app_header = None,
          app_next = None, app_slot_id = slot, app_is_internal = internal\<rparr>)"
      "brk s1 = Suc (Suc (brk s))" "statics s1 = statics s"
      "allocs s1 = tl (tl (allocs s))"
    | (failed) "app = None" "heap s1 = heap s" "brk s \<le> brk s1" "statics s1 = statics s"
proof -
  obtain r1 t1 where c1: "calloc s = (r1, t1)"
    by (cases "calloc s")
  obtain r2 t2 where c2: "calloc t1 = (r2, t2)"
    by (cases "calloc t1")
  from c1 show thesis
  proof (cases rule: calloc_cases)
    case fail
    with assms c1 have "app = None" "s1 = t1"
      by (simp_all add: appmanager_create_app_def)
    with fail show thesis
      by (intro failed) (simp_all add: statics_def)
  next
    case ok1: ok
    from c2 show thesis
    proof (cases rule: calloc_cases)
      case fail
      with assms c1 c2 ok1 have "app = None" "s1 = t2"
        by (simp_all add: appmanager_create_app_def)
      with fail ok1 show thesis
        by (intro failed) (simp_all add: statics_def)
    next
      case ok
      with assms c1 c2 ok1 have "app = Some (brk s)"
        "s1 = t2\<lparr>heap := (heap t2)(brk s \<mapsto>
         \<lparr>app_name = strcpy nm, app_main = entry, app_type = ty, app_header = None,
          app_next = None, app_slot_id = slot, app_is_internal = internal\<rparr>)\<rparr>"
        by (simp_all add: appmanager_create_app_def)
      with ok ok1 show thesis
        by (intro created) (simp_all add: statics_def)
    qed
  qed
qed

lemma add_to_manifest_None:
  assumes "manifest (heap s) (app_manifest_head s) as"
  shows "appmanager_add_to_manifest None s = Some s"
proof (cases as)
  case Nil
  with assms show ?thesis
    by (simp add: appmanager_add_to_manifest_def)
next
  case (Cons a bs)
  with assms have hd: "app_manifest_head s = Some a"
    by simp
  with assms obtain r where r: "last_node (heap s) a = Some (last as, r)"
    "heap s (last as) = Some r" "app_next r = None"
    using last_node_manifest by metis
  then have "(heap s)(last as \<mapsto> r\<lparr>app_next := None\<rparr>) = heap s"
    by (auto simp add: fun_upd_idem)
  with hd r show ?thesis
    by (simp add: appmanager_add_to_manifest_def)
qed

lemma add_to_manifest_Some:
  assumes "manifest (heap s) (app_manifest_head s) as"
    and "heap s p = Some rp" and "app_next rp = None" and "p \<notin> set as"
  shows "\<exists>s2. appmanager_add_to_manifest (Some p) s = Some s2 \<and>
           manifest (heap s2) (app_manifest_head s2) (as @ [p]) \<and>
           (\<forall>a. a \<noteq> p \<longrightarrow> map_option unlinked (heap s2 a) = map_option unlinked (heap s a)) \<and>
           heap s2 p = heap s p \<and> dom (heap s2) = dom (heap s) \<and>
           s2 = s\<lparr>heap := heap s2, app_manifest_head := app_manifest_head s2\<rparr>"
proof (cases as)
  case Nil
  with assms show ?thesis
    by (simp add: appmanager_add_to_manifest_def)
next
  case (Cons a bs)
  with assms have hd: "app_manifest_head s = Some a"
    by simp
  with assms obtain r where r: "last_node (heap s) a = Some (last as, r)"
    "heap s (last as) = Some r" "app_next r = None"
    using last_node_manifest by metis
  let ?h = "(heap s)(last as \<mapsto> r\<lparr>app_next := Some p\<rparr>)"
  have ne: "as \<noteq> []"
    using Cons by simp
  have m: "manifest ?h (app_manifest_head s) (as @ [p])"
    using assms ne r by (intro manifest_snoc)
  have lp: "last as \<noteq> p"
    using ne assms(4) last_in_set by metis
  have un: "\<forall>a. a \<noteq> p \<longrightarrow> map_option unlinked (?h a) = map_option unlinked (heap s a)"
    using r by (simp add: unlinked_def)
  have dm: "dom ?h = dom (heap s)"
    using r by auto
  have "appmanager_add_to_manifest (Some p) s = Some (s\<lparr>heap := ?h\<rparr>)"
    using hd r by (simp add: appmanager_add_to_manifest_def)
  with m un lp dm show ?thesis
    by simp
qed

lemma heap_ok_create:
  assumes "heap_ok s" and "appmanager_create_app nm ty entry internal slot s = (app, s1)"
  shows "heap_ok s1"
  using assms(2)
proof (cases rule: create_app_cases)
  case created
  have "a < brk s1" if "a \<in> dom (heap s1)" for a
  proof (cases "a = brk s")
    case True
    then show ?thesis
      by (simp add: created(3))
  next
    case False
    with that have "a \<in> dom (heap s)"
      by (simp add: created(2))
    with assms(1) have "a < brk s"
      by (simp add: heap_ok_def)
    then show ?thesis
      by (simp add: created(3))
  qed
  then show ?thesis
    by (simp add: heap_ok_def)
next
  case failed
  have "a < brk s1" if "a \<in> dom (heap s1)" for a
  proof -
    from that assms(1) have "a < brk s"
      by (simp add: heap_ok_def failed(2))
    with failed(3) show ?thesis
      by simp
  qed
  then show ?thesis
    by (simp add: heap_ok_def)
qed

text \<open>
  What \<^verbatim>\<open>_appmanager_create_app\<close> makes of the outcomes of the coming allocations: it returns
  a record when the first two succeed, and it uses up two of them, or one when the first
  fails. \<open>allocated xs os\<close> are those of the candidates \<open>xs\<close>, created one after the other,
  for which a record is returned.
\<close>

definition create_succeeds :: "bool list \<Rightarrow> bool" where
  "create_succeeds os = (case os of [] \<Rightarrow> True | a # r \<Rightarrow> a \<and> (case r of [] \<Rightarrow> True | b # _ \<Rightarrow> b))"

definition create_rest :: "bool list \<Rightarrow> bool list" where
  "create_rest os = (case os of [] \<Rightarrow> [] | a # r \<Rightarrow> if a then tl r else r)"

fun allocated :: "'a list \<Rightarrow> bool list \<Rightarrow> 'a list" where
  "allocated [] os = []"
| "allocated (x # xs) os =
     (if create_succeeds os then [x] else []) @ allocated xs (create_rest os)"

lemma create_app_outcome:
  assumes "appmanager_create_app nm ty entry internal slot s = (app, s1)"
  shows "app = (if create_succeeds (allocs s) then Some (brk s) else None)"
    and "allocs s1 = create_rest (allocs s)"
  using assms
  by (auto simp add: appmanager_create_app_def calloc_def create_succeeds_def create_rest_def
      split: list.splits if_splits)

lemma create_rest_ok:
  assumes "False \<notin> set os"
  shows "False \<notin> set (create_rest os)"
proof (cases os)
  case Nil
  then show ?thesis
    by (simp add: create_rest_def)
next
  case (Cons a r)
  with assms have "False \<notin> set r"
    by simp
  then have "False \<notin> set (tl r)"
    by (cases r) simp_all
  with Cons \<open>False \<notin> set r\<close> show ?thesis
    by (simp add: create_rest_def)
qed

lemma create_succeeds_ok: "False \<notin> set os \<Longrightarrow> create_succeeds os"
  by (auto simp add: create_succeeds_def split: list.splits)

lemma allocated_all: "False \<notin> set os \<Longrightarrow> allocated xs os = xs"
  by (induction xs arbitrary: os) (simp_all add: create_rest_ok create_succeeds_ok)

text \<open>
  Creating a record and inserting it, whatever the allocations do: when the creation
  succeeds the record is new and is appended, otherwise the manifest stays.
\<close>

lemma insert_any:
  assumes ok: "heap_ok s" and m: "manifest (heap s) (app_manifest_head s) as"
  shows "\<exists>app s1 s2. appmanager_create_app nm ty entry internal slot s = (app, s1) \<and>
           appmanager_add_to_manifest app s1 = Some s2 \<and>
           heap_ok s2 \<and>
           manifest (heap s2) (app_manifest_head s2)
             (as @ (if create_succeeds (allocs s) then [brk s] else [])) \<and>
           (create_succeeds (allocs s) \<longrightarrow>
              map_option unlinked (heap s2 (brk s)) =
                Some \<lparr>app_name = strcpy nm, app_main = entry, app_type = ty, app_header = None,
                       app_next = None, app_slot_id = slot, app_is_internal = internal\<rparr>) \<and>
           (\<forall>a \<in> set as. map_option unlinked (heap s2 a) = map_option unlinked (heap s a)) \<and>
           allocs s2 = create_rest (allocs s) \<and>
           app_task_handle s2 = app_task_handle s \<and> trace s2 = trace s"
proof -
  obtain app s1 where c: "appmanager_create_app nm ty entry internal slot s = (app, s1)"
    by (cases "appmanager_create_app nm ty entry internal slot s")
  note out = create_app_outcome [OF c]
  have ok1: "heap_ok s1"
    using ok c by (rule heap_ok_create)
  from c show ?thesis
  proof (cases rule: create_app_cases)
    case failed
    with out(1) have ns: "\<not> create_succeeds (allocs s)"
      by (simp split: if_splits)
    from failed have m1: "manifest (heap s1) (app_manifest_head s1) as"
      using m by (simp add: statics_def)
    from add_to_manifest_None [OF m1] have a: "appmanager_add_to_manifest app s1 = Some s1"
      by (simp add: failed(1))
    have fr: "app_task_handle s1 = app_task_handle s" "trace s1 = trace s"
      using failed(4) by (simp_all add: statics_def)
    from c a ok1 m1 ns out(2) fr failed(2) show ?thesis
      by simp
  next
    case created
    with out(1) have ys: "create_succeeds (allocs s)"
      by (simp split: if_splits)
    let ?p = "brk s"
    let ?r = "\<lparr>app_name = strcpy nm, app_main = entry, app_type = ty, app_header = None,
               app_next = None, app_slot_id = slot, app_is_internal = internal\<rparr>"
    have fresh: "?p \<notin> dom (heap s)"
      using ok by (auto simp add: heap_ok_def)
    then have nin: "?p \<notin> set as"
      using m manifest_in_dom by blast
    have m1: "manifest (heap s1) (app_manifest_head s1) as"
      using m nin created(4) by (simp add: created(2) manifest_upd_outside statics_def)
    have rp: "heap s1 ?p = Some ?r" "app_next ?r = None"
      by (simp_all add: created(2))
    from add_to_manifest_Some [OF m1 rp nin] obtain s2 where s2:
      "appmanager_add_to_manifest (Some ?p) s1 = Some s2"
      "manifest (heap s2) (app_manifest_head s2) (as @ [?p])"
      "\<forall>a. a \<noteq> ?p \<longrightarrow> map_option unlinked (heap s2 a) = map_option unlinked (heap s1 a)"
      "heap s2 ?p = heap s1 ?p" "dom (heap s2) = dom (heap s1)"
      "s2 = s1\<lparr>heap := heap s2, app_manifest_head := app_manifest_head s2\<rparr>"
      by blast
    have fr: "brk s2 = brk s1" "allocs s2 = allocs s1"
      "app_task_handle s2 = app_task_handle s1" "trace s2 = trace s1"
      by (subst s2(6), simp)+
    have ok2: "heap_ok s2"
      using ok1 by (simp add: heap_ok_def s2(5) fr)
    have un: "\<forall>a \<in> set as. map_option unlinked (heap s2 a) = map_option unlinked (heap s a)"
    proof
      fix a assume "a \<in> set as"
      with nin have "a \<noteq> ?p" by auto
      with s2(3) show "map_option unlinked (heap s2 a) = map_option unlinked (heap s a)"
        by (simp add: created(2))
    qed
    have new: "map_option unlinked (heap s2 ?p) = Some ?r"
      by (simp add: s2(4) created(2) unlinked_def)
    have st: "app_task_handle s1 = app_task_handle s" "trace s1 = trace s"
      using created(4) by (simp_all add: statics_def)
    from c created(1) s2(1,2) ok2 new un ys out(2) fr st show ?thesis
      by simp
  qed
qed

text \<open>
  Scenario S5 of the spec: a manifest holding a record named \<^verbatim>\<open>S\<close> and then a record named
  \<^verbatim>\<open>System\<close>.
\<close>

definition face :: "string \<Rightarrow> addr option \<Rightarrow> App" where
  "face nm nxt =
     \<lparr>app_name = nm, app_main = None, app_type = APP_TYPE_FACE, app_header = None,
      app_next = nxt, app_slot_id = 0, app_is_internal = False\<rparr>"

definition state_S_System :: am_state where
  "state_S_System =
     \<lparr>heap = [1 \<mapsto> face ''S'' (Some 3), 3 \<mapsto> face ''System'' None], brk = 5, allocs = [],
      app_manifest_head = Some 1,
      running_app = None, app_task_handle = None, app_thread_manager_task_handle = None,
      app_message_queue = \<lparr>q_length = 5, q_items = []\<rparr>,
      app_thread_queue = \<lparr>q_length = 1, q_items = []\<rparr>,
      app_stack_heap = [], trace = []\<rparr>"

text \<open>
  Claim C10. Inserting the result of \<^verbatim>\<open>_appmanager_create_app\<close> (the only way the source
  calls \<^verbatim>\<open>_appmanager_add_to_manifest\<close>) into a manifest that lists the records \<open>as\<close>
  returns, and the manifest then lists \<open>as\<close> followed by the new record: the new record
  is appended at the tail, the records inserted before are the same records in the same
  order, and nothing but their links has changed. When the creation failed and returned
  NULL, inserting NULL leaves the whole state, and so the manifest, exactly as it was.
\<close>

theorem add_to_manifest_appends_at_tail:
  assumes "heap_ok s" and "manifest (heap s) (app_manifest_head s) as"
    and "appmanager_create_app nm ty entry internal slot s = (app, s1)"
  shows "\<exists>s2. appmanager_add_to_manifest app s1 = Some s2 \<and>
           manifest (heap s2) (app_manifest_head s2)
             (as @ (case app of None \<Rightarrow> [] | Some p \<Rightarrow> [p])) \<and>
           (\<forall>a \<in> set as. map_option unlinked (heap s2 a) = map_option unlinked (heap s a)) \<and>
           (app = None \<longrightarrow> s2 = s1)"
  using assms(3)
proof (cases rule: create_app_cases)
  case failed
  then have "manifest (heap s1) (app_manifest_head s1) as"
    using assms(2) by (simp add: statics_def)
  from add_to_manifest_None [OF this] failed this show ?thesis
    by simp
next
  case created
  let ?p = "brk s"
  have fresh: "?p \<notin> dom (heap s)"
    using assms(1) by (auto simp add: heap_ok_def)
  then have nin: "?p \<notin> set as"
    using assms(2) manifest_in_dom by blast
  have hd: "app_manifest_head s1 = app_manifest_head s"
    using created(4) by (simp add: statics_def)
  have m1: "manifest (heap s1) (app_manifest_head s1) as"
    using assms(2) nin by (simp add: hd created(2) manifest_upd_outside)
  obtain rp where rp: "heap s1 ?p = Some rp" "app_next rp = None"
    by (simp add: created(2))
  from add_to_manifest_Some [OF m1 rp nin] obtain s2 where s2:
    "appmanager_add_to_manifest (Some ?p) s1 = Some s2"
    "manifest (heap s2) (app_manifest_head s2) (as @ [?p])"
    "\<forall>a. a \<noteq> ?p \<longrightarrow> map_option unlinked (heap s2 a) = map_option unlinked (heap s1 a)"
    by blast
  have "\<forall>a \<in> set as. map_option unlinked (heap s2 a) = map_option unlinked (heap s a)"
  proof
    fix a assume "a \<in> set as"
    with nin have "a \<noteq> ?p" by auto
    with s2(3) show "map_option unlinked (heap s2 a) = map_option unlinked (heap s a)"
      by (simp add: created(2))
  qed
  with s2 created(1) show ?thesis
    by simp
qed

text \<open>
  The theorem at the manifest of scenario S5: inserting a third record appends it after
  the two there.
\<close>

theorem add_to_manifest_appends_at_tail_witness:
  "\<exists>s2. appmanager_add_to_manifest (Some 5)
            (snd (appmanager_create_app ''Simple'' APP_TYPE_FACE (Some simple_main) True 0
              state_S_System)) = Some s2 \<and>
         manifest (heap s2) (app_manifest_head s2) [1, 3, 5] \<and>
         map_option unlinked (heap s2 1) = Some (face ''S'' None) \<and>
         map_option unlinked (heap s2 3) = Some (face ''System'' None)"
proof -
  let ?c = "appmanager_create_app ''Simple'' APP_TYPE_FACE (Some simple_main) True 0 state_S_System"
  have ok: "heap_ok state_S_System"
    by (simp add: heap_ok_def state_S_System_def)
  have m: "manifest (heap state_S_System) (app_manifest_head state_S_System) [1, 3]"
    by (simp add: state_S_System_def face_def)
  have c: "?c = (fst ?c, snd ?c)"
    by simp
  have f: "fst ?c = Some 5"
    by (simp add: appmanager_create_app_def calloc_def state_S_System_def)
  have u: "map_option unlinked (heap state_S_System 1) = Some (face ''S'' None)"
    "map_option unlinked (heap state_S_System 3) = Some (face ''System'' None)"
    by (simp_all add: state_S_System_def face_def unlinked_def)
  from add_to_manifest_appends_at_tail [OF ok m c] f u show ?thesis
    by auto
qed

text \<open>
  Claim C4. For every state whose manifest lists the records \<open>as\<close> in insertion order and
  for every query string, \<^verbatim>\<open>appmanager_get_app\<close> returns the first record of \<open>as\<close> whose
  stored name is a prefix of the query, and NULL when no stored name is a prefix of the
  query; it leaves the manifest as it is.
\<close>

theorem get_app_first_prefix_match:
  assumes "manifest (heap s) (app_manifest_head s) as"
  shows "\<exists>s'. appmanager_get_app query s = Some (List.find (name_matches (heap s) query) as, s') \<and>
           heap s' = heap s \<and> app_manifest_head s' = app_manifest_head s"
proof (cases "List.find (name_matches (heap s) query) as")
  case None
  with find_app_manifest [OF assms, of query] show ?thesis
    by (simp add: appmanager_get_app_def emit_def)
next
  case (Some a)
  with find_app_manifest [OF assms, of query] show ?thesis
    by (simp add: appmanager_get_app_def)
qed

text \<open>
  In particular, with the manifest of scenario S5 the query \<^verbatim>\<open>System\<close> returns the record
  named \<^verbatim>\<open>S\<close> (so does \<^verbatim>\<open>Simple\<close>), and \<^verbatim>\<open>NiVZ\<close> returns NULL.
\<close>

theorem get_app_first_prefix_match_witness:
  "manifest (heap state_S_System) (app_manifest_head state_S_System) [1, 3] \<and>
   map_option app_name (heap state_S_System 1) = Some ''S'' \<and>
   map_option app_name (heap state_S_System 3) = Some ''System'' \<and>
   (\<exists>s'. appmanager_get_app ''System'' state_S_System = Some (Some 1, s')) \<and>
   (\<exists>s'. appmanager_get_app ''Simple'' state_S_System = Some (Some 1, s')) \<and>
   (\<exists>s'. appmanager_get_app ''NiVZ'' state_S_System = Some (None, s'))"
proof -
  have m: "manifest (heap state_S_System) (app_manifest_head state_S_System) [1, 3]"
    by (simp add: state_S_System_def face_def)
  have n: "map_option app_name (heap state_S_System 1) = Some ''S''"
    "map_option app_name (heap state_S_System 3) = Some ''System''"
    by (simp_all add: state_S_System_def face_def)
  have f: "List.find (name_matches (heap state_S_System) ''System'') [1, 3] = Some 1"
    "List.find (name_matches (heap state_S_System) ''Simple'') [1, 3] = Some 1"
    "List.find (name_matches (heap state_S_System) ''NiVZ'') [1, 3] = None"
    by (simp_all add: name_matches_def state_S_System_def face_def cstr_def NUL_def)
  from get_app_first_prefix_match [OF m, of "''System''"]
    get_app_first_prefix_match [OF m, of "''Simple''"]
    get_app_first_prefix_match [OF m, of "''NiVZ''"] m n f
  show ?thesis
    by auto
qed


subsection \<open>Queues and the control surface\<close>

text \<open>
  Modelled from the spec: the queue primitives belong to FreeRTOS. A sender waits up to
  its timeout for room; the model describes the call that finds the queue, at the end of
  its wait, with the items given: with room the item goes to the back, without room the
  call returns \<^verbatim>\<open>errQUEUE_FULL\<close> and the item is lost. The variant for interrupt handlers
  does not wait.
\<close>

definition xQueueCreate :: "nat \<Rightarrow> queue" where
  "xQueueCreate n = \<lparr>q_length = n, q_items = []\<rparr>"

definition xQueueSendToBack :: "queue \<Rightarrow> AppMessage \<Rightarrow> bool \<times> queue" where
  "xQueueSendToBack q item =
     (if length (q_items q) < q_length q then (True, q\<lparr>q_items := q_items q @ [item]\<rparr>)
      else (False, q))"

definition xQueueReset :: "queue \<Rightarrow> queue" where
  "xQueueReset q = q\<lparr>q_items := []\<rparr>"

definition send_message_queue :: "AppMessage \<Rightarrow> nat \<Rightarrow> am_state \<Rightarrow> am_state" where
  "send_message_queue am ticks s =
     (case xQueueSendToBack (app_message_queue s) am of
        (queued, q) \<Rightarrow>
          emit (QueueSendToBack Message_queue am ticks queued) (s\<lparr>app_message_queue := q\<rparr>))"

definition send_thread_queue :: "AppMessage \<Rightarrow> nat \<Rightarrow> am_state \<Rightarrow> am_state" where
  "send_thread_queue am ticks s =
     (case xQueueSendToBack (app_thread_queue s) am of
        (queued, q) \<Rightarrow>
          emit (QueueSendToBack Thread_queue am ticks queued) (s\<lparr>app_thread_queue := q\<rparr>))"

definition quit_message :: AppMessage where
  "quit_message = \<lparr>message_type_id = Some APP_QUIT, payload = NULL_payload\<rparr>"

definition start_message :: "string \<Rightarrow> AppMessage" where
  "start_message nm = \<lparr>message_type_id = None, payload = Name_payload nm\<rparr>"

definition appmanager_app_quit :: "am_state \<Rightarrow> am_state" where
  "appmanager_app_quit s = send_message_queue quit_message 10 s"

definition appmanager_app_start :: "string \<Rightarrow> am_state \<Rightarrow> am_state" where
  "appmanager_app_start nm s = send_thread_queue (start_message nm) 100 (appmanager_app_quit s)"

definition appmanager_post_button_message :: "ButtonMessage \<Rightarrow> am_state \<Rightarrow> am_state" where
  "appmanager_post_button_message bmessage s =
     send_message_queue
       \<lparr>message_type_id = Some APP_BUTTON, payload = Button_payload bmessage\<rparr> 10 s"

definition appmanager_post_tick_message :: "TickMessage \<Rightarrow> am_state \<Rightarrow> am_state" where
  "appmanager_post_tick_message tmessage s =
     (let am = \<lparr>message_type_id = Some APP_TICK, payload = Tick_payload tmessage\<rparr> in
      case xQueueSendToBack (app_message_queue s) am of
        (queued, q) \<Rightarrow>
          emit (QueueSendToBackFromISR Message_queue am queued) (s\<lparr>app_message_queue := q\<rparr>))"

subsection \<open>The event loop of the application task\<close>

datatype fault = Out_of_arena | Null_pointer

text \<open>
  The part of \<^verbatim>\<open>app_event_loop\<close> before the loop. It reads the type of the running
  application through \<^verbatim>\<open>_running_app\<close>.
\<close>

definition app_event_loop_enter :: "am_state \<Rightarrow> fault + am_state" where
  "app_event_loop_enter s =
     (let s1 = emit Window_load_click_config (emit Window_load_proc
                 (emit (KERN_LOG ''app'' APP_LOG_LEVEL_INFO ''App entered mainloop'' []) s))
      in case running_app s1 of
           None \<Rightarrow> Inl Null_pointer
         | Some p \<Rightarrow>
             (case heap s1 p of
                None \<Rightarrow> Inl Null_pointer
              | Some r \<Rightarrow>
                  Inr (emit Window_dirty
                        (if app_type r \<noteq> APP_TYPE_SYSTEM
                         then emit Window_single_click_subscribe s1 else s1))))"

datatype loop_result = Looping | Left_loop

text \<open>
  One turn of the loop: \<^verbatim>\<open>xQueueReceive\<close> times out on an empty queue, otherwise the
  message at the front is taken and dispatched on its type.
\<close>

definition app_event_loop_turn :: "am_state \<Rightarrow> loop_result \<times> am_state" where
  "app_event_loop_turn s =
     (case q_items (app_message_queue s) of
        [] \<Rightarrow> (Looping, s)
      | data # rest \<Rightarrow>
          (let s1 = s\<lparr>app_message_queue := (app_message_queue s)\<lparr>q_items := rest\<rparr>\<rparr> in
           if message_type_id data = Some APP_BUTTON then
             (case payload data of
                Button_payload message \<Rightarrow> (Looping, emit (Call_click_handler message) s1)
              | _ \<Rightarrow> (Looping, s1))
           else if message_type_id data = Some APP_TICK then
             (case payload data of
                Tick_payload message \<Rightarrow> (Looping, emit (Call_tick_handler message) s1)
              | _ \<Rightarrow> (Looping, s1))
           else if message_type_id data = Some APP_QUIT then
             (Left_loop,
              emit (TaskDelete (app_task_handle s1))
                (emit (KERN_LOG ''app'' APP_LOG_LEVEL_INFO ''App Quit'' [])
                  (emit Time_service_unsubscribe (emit Button_unsubscribe_all s1))))
           else (Looping, s1)))"

subsection \<open>Starting an application: quit first, then the start request\<close>

text \<open>States with given queue contents (five places for messages, one for a start request).\<close>

definition button_message :: "nat \<Rightarrow> AppMessage" where
  "button_message k =
     \<lparr>message_type_id = Some APP_BUTTON,
      payload = Button_payload \<lparr>button_callback = k, clickref = 0, button_context = 0\<rparr>\<rparr>"

definition queues_state :: "AppMessage list \<Rightarrow> AppMessage list \<Rightarrow> am_state" where
  "queues_state ms ts =
     state_S_System\<lparr>app_message_queue := \<lparr>q_length = 5, q_items = ms\<rparr>,
                     app_thread_queue := \<lparr>q_length = 1, q_items = ts\<rparr>\<rparr>"

lemma trace_app_quit:
  "trace (appmanager_app_quit s) =
     trace s @ [QueueSendToBack Message_queue quit_message 10
                  (length (q_items (app_message_queue s)) < q_length (app_message_queue s))]"
  by (simp add: appmanager_app_quit_def send_message_queue_def xQueueSendToBack_def emit_def)

lemma message_queue_app_quit:
  "q_items (app_message_queue (appmanager_app_quit s)) =
     q_items (app_message_queue s) @
       (if length (q_items (app_message_queue s)) < q_length (app_message_queue s)
        then [quit_message] else [])"
  by (simp add: appmanager_app_quit_def send_message_queue_def xQueueSendToBack_def emit_def)

lemma thread_queue_app_quit: "app_thread_queue (appmanager_app_quit s) = app_thread_queue s"
  by (simp add: appmanager_app_quit_def send_message_queue_def xQueueSendToBack_def emit_def)

text \<open>
  Claim C9, as the code has it. A call of \<^verbatim>\<open>appmanager_app_start\<close> makes exactly two queue
  calls, in this order: the Quit is sent to the message queue (10 ticks), then the start
  request to the thread queue (100 ticks). Each is queued when its queue has room and is
  dropped otherwise, and neither outcome is looked at. When the thread queue is full the
  call leaves the state \<^verbatim>\<open>appmanager_app_quit\<close> alone leaves (but for the trace of the
  failed send): no successor is registered and the caller is told nothing. The Quit is
  queued only when the message queue has room.
\<close>

theorem app_start_quit_then_start:
  "trace (appmanager_app_start nm s) =
     trace s @
       [QueueSendToBack Message_queue quit_message 10
          (length (q_items (app_message_queue s)) < q_length (app_message_queue s)),
        QueueSendToBack Thread_queue (start_message nm) 100
          (length (q_items (app_thread_queue s)) < q_length (app_thread_queue s))] \<and>
   q_items (app_message_queue (appmanager_app_start nm s)) =
     q_items (app_message_queue s) @
       (if length (q_items (app_message_queue s)) < q_length (app_message_queue s)
        then [quit_message] else []) \<and>
   q_items (app_thread_queue (appmanager_app_start nm s)) =
     q_items (app_thread_queue s) @
       (if length (q_items (app_thread_queue s)) < q_length (app_thread_queue s)
        then [start_message nm] else []) \<and>
   (\<not> length (q_items (app_thread_queue s)) < q_length (app_thread_queue s) \<longrightarrow>
      appmanager_app_start nm s =
        emit (QueueSendToBack Thread_queue (start_message nm) 100 False) (appmanager_app_quit s))"
proof -
  let ?q = "appmanager_app_quit s"
  have tr: "trace (appmanager_app_start nm s) =
      trace ?q @ [QueueSendToBack Thread_queue (start_message nm) 100
          (length (q_items (app_thread_queue ?q)) < q_length (app_thread_queue ?q))]"
    by (simp add: appmanager_app_start_def send_thread_queue_def xQueueSendToBack_def emit_def)
  have mq: "app_message_queue (appmanager_app_start nm s) = app_message_queue ?q"
    by (simp add: appmanager_app_start_def send_thread_queue_def xQueueSendToBack_def emit_def)
  have tq: "q_items (app_thread_queue (appmanager_app_start nm s)) =
      q_items (app_thread_queue ?q) @
       (if length (q_items (app_thread_queue ?q)) < q_length (app_thread_queue ?q)
        then [start_message nm] else [])"
    by (simp add: appmanager_app_start_def send_thread_queue_def xQueueSendToBack_def emit_def)
  have full: "appmanager_app_start nm s =
        emit (QueueSendToBack Thread_queue (start_message nm) 100 False) ?q"
    if "\<not> length (q_items (app_thread_queue s)) < q_length (app_thread_queue s)"
  proof -
    from that have "\<not> length (q_items (app_thread_queue ?q)) < q_length (app_thread_queue ?q)"
      by (simp add: thread_queue_app_quit)
    then show ?thesis
      by (simp add: appmanager_app_start_def send_thread_queue_def xQueueSendToBack_def)
  qed
  from tr mq tq full show ?thesis
    by (simp add: trace_app_quit message_queue_app_quit thread_queue_app_quit)
qed

text \<open>
  With one button message waiting and a start request already in the thread queue, the
  Quit is queued behind the button message and the new start request is dropped.
\<close>

theorem app_start_quit_then_start_witness:
  "q_items (app_message_queue (appmanager_app_start ''Simple''
      (queues_state [button_message 1] [start_message ''System'']))) =
     [button_message 1, quit_message] \<and>
   q_items (app_thread_queue (appmanager_app_start ''Simple''
      (queues_state [button_message 1] [start_message ''System'']))) =
     [start_message ''System''] \<and>
   appmanager_app_start ''Simple'' (queues_state [button_message 1] [start_message ''System'']) =
     emit (QueueSendToBack Thread_queue (start_message ''Simple'') 100 False)
       (appmanager_app_quit (queues_state [button_message 1] [start_message ''System'']))"
proof -
  let ?s = "queues_state [button_message 1] [start_message ''System'']"
  note t = app_start_quit_then_start [of "''Simple''" ?s]
  have mq: "q_items (app_message_queue ?s) = [button_message 1]"
      "length (q_items (app_message_queue ?s)) < q_length (app_message_queue ?s)"
    by (simp_all add: queues_state_def)
  have tq: "q_items (app_thread_queue ?s) = [start_message ''System'']"
      "\<not> length (q_items (app_thread_queue ?s)) < q_length (app_thread_queue ?s)"
    by (simp_all add: queues_state_def)
  from t have "q_items (app_message_queue (appmanager_app_start ''Simple'' ?s)) =
     q_items (app_message_queue ?s) @
       (if length (q_items (app_message_queue ?s)) < q_length (app_message_queue ?s)
        then [quit_message] else [])"
    by blast
  with mq have a: "q_items (app_message_queue (appmanager_app_start ''Simple'' ?s)) =
     [button_message 1, quit_message]"
    by simp
  from t have "q_items (app_thread_queue (appmanager_app_start ''Simple'' ?s)) =
     q_items (app_thread_queue ?s) @
       (if length (q_items (app_thread_queue ?s)) < q_length (app_thread_queue ?s)
        then [start_message ''Simple''] else [])"
    by blast
  with tq have b: "q_items (app_thread_queue (appmanager_app_start ''Simple'' ?s)) =
     [start_message ''System'']"
    by simp
  from t tq(2) have c: "appmanager_app_start ''Simple'' ?s =
     emit (QueueSendToBack Thread_queue (start_message ''Simple'') 100 False)
       (appmanager_app_quit ?s)"
    by blast
  from a b c show ?thesis
    by blast
qed

text \<open>
  The claim as it was stated (every call queues the Quit) fails when the message queue
  already holds five messages: the Quit is dropped, and the start request is queued all
  the same.
\<close>

theorem app_start_quit_lost_counterexample:
  "q_items (app_message_queue (appmanager_app_start ''Simple''
      (queues_state (map button_message [1, 2, 3, 4, 5]) []))) =
     map button_message [1, 2, 3, 4, 5] \<and>
   q_items (app_thread_queue (appmanager_app_start ''Simple''
      (queues_state (map button_message [1, 2, 3, 4, 5]) []))) = [start_message ''Simple''] \<and>
   quit_message \<notin> set (q_items (app_message_queue (appmanager_app_start ''Simple''
      (queues_state (map button_message [1, 2, 3, 4, 5]) []))))"
  by (simp add: appmanager_app_start_def appmanager_app_quit_def send_thread_queue_def
      send_message_queue_def xQueueSendToBack_def emit_def queues_state_def
      button_message_def quit_message_def)

subsection \<open>The flash scanner and initialisation\<close>

text \<open>
  \<^verbatim>\<open>_appmanager_flash_load_app_manifest\<close>: the loop \<^verbatim>\<open>for(uint8_t i = 0; i < 32; i++)\<close>,
  started at \<open>i\<close>.
\<close>

function flash_load_app_manifest_from :: "platform \<Rightarrow> nat \<Rightarrow> am_state \<Rightarrow> am_state option" where
  "flash_load_app_manifest_from pf i s =
     (if i < 32 then
        (let hdr = flash_load_app_header pf (of_nat i);
             s1 = emit (Flash_load_app_header (of_nat i)) s
         in if strncmp (header hdr) ''PBLAPP'' 6 = 0 then
              (case appmanager_create_app (name_chars hdr) APP_TYPE_FACE None False (of_nat i)
                      (emit (KERN_LOG ''app'' APP_LOG_LEVEL_INFO ''VALID App Found %s''
                               [Str (cstr (name_chars hdr))]) s1) of
                 (app, s2) \<Rightarrow>
                   (case appmanager_add_to_manifest app s2 of
                      None \<Rightarrow> None
                    | Some s3 \<Rightarrow> flash_load_app_manifest_from pf (Suc i) s3))
            else flash_load_app_manifest_from pf (Suc i) s1)
      else Some s)"
  by pat_completeness auto
termination
  by (relation "measure (\<lambda>(pf, i, s). 32 - i)") auto

declare flash_load_app_manifest_from.simps [simp del]

definition appmanager_flash_load_app_manifest :: "platform \<Rightarrow> am_state \<Rightarrow> am_state option" where
  "appmanager_flash_load_app_manifest pf s = flash_load_app_manifest_from pf 0 s"

definition manager_task :: task where
  "manager_task =
     \<lparr>task_code = Manager_thread, task_name = ''App'', task_stack_depth = 300,
      task_priority = 5, task_stack = Manager_stack\<rparr>"

definition appmanager_init :: "platform \<Rightarrow> am_state \<Rightarrow> am_state option" where
  "appmanager_init pf s =
     (case appmanager_create_app ''System'' APP_TYPE_SYSTEM (Some systemapp_main) True 0 s of
        (app1, s1) \<Rightarrow>
     case appmanager_add_to_manifest app1 s1 of None \<Rightarrow> None | Some s2 \<Rightarrow>
     case appmanager_create_app ''Simple'' APP_TYPE_FACE (Some simple_main) True 0 s2 of
        (app2, s3) \<Rightarrow>
     case appmanager_add_to_manifest app2 s3 of None \<Rightarrow> None | Some s4 \<Rightarrow>
     case appmanager_create_app ''NiVZ'' APP_TYPE_FACE (Some nivz_main) True 0 s4 of
        (app3, s5) \<Rightarrow>
     case appmanager_add_to_manifest app3 s5 of None \<Rightarrow> None | Some s6 \<Rightarrow>
     case appmanager_flash_load_app_manifest pf (s6\<lparr>app_task_handle := None\<rparr>) of
        None \<Rightarrow> None
      | Some s7 \<Rightarrow>
          (let s8 = emit (QueueCreate Thread_queue 1)
                      (emit (QueueCreate Message_queue 5)
                        (s7\<lparr>app_message_queue := xQueueCreate 5\<rparr>)
                          \<lparr>app_thread_queue := xQueueCreate 1\<rparr>);
               s9 = appmanager_app_start ''System'' s8;
               s10 = emit (TaskCreateStatic manager_task)
                       (s9\<lparr>app_thread_manager_task_handle := Some manager_task\<rparr>)
           in Some (emit (KERN_LOG ''app'' APP_LOG_LEVEL_INFO ''App thread created'' []) s10)))"


text \<open>
  The state at boot: the statics of the file are zero, nothing is allocated, the queues
  are not created yet. \<open>outcomes\<close> are the results of the coming allocations.
\<close>

definition boot_state :: "platform \<Rightarrow> bool list \<Rightarrow> am_state" where
  "boot_state pf outcomes =
     \<lparr>heap = Map.empty, brk = 1, allocs = outcomes, app_manifest_head = None,
      running_app = None, app_task_handle = None, app_thread_manager_task_handle = None,
      app_message_queue = \<lparr>q_length = 0, q_items = []\<rparr>,
      app_thread_queue = \<lparr>q_length = 0, q_items = []\<rparr>,
      app_stack_heap = replicate (unat (MAX_APP_MEMORY_SIZE pf)) 0, trace = []\<rparr>"

text \<open>
  The slots whose header was read, in order; the record the scanner creates for slot \<open>i\<close>;
  whether the first six bytes of the header of slot \<open>i\<close> are \<^verbatim>\<open>PBLAPP\<close>.
\<close>

definition flash_reads :: "event list \<Rightarrow> u8 list" where
  "flash_reads tr =
     concat (map (\<lambda>e. case e of Flash_load_app_header slot \<Rightarrow> [slot] | _ \<Rightarrow> []) tr)"

definition scanned_app :: "platform \<Rightarrow> nat \<Rightarrow> App" where
  "scanned_app pf i =
     \<lparr>app_name = cstr (name_chars (flash_load_app_header pf (of_nat i))), app_main = None,
      app_type = APP_TYPE_FACE, app_header = None, app_next = None,
      app_slot_id = of_nat i, app_is_internal = False\<rparr>"

definition has_magic :: "platform \<Rightarrow> nat \<Rightarrow> bool" where
  "has_magic pf i = (take 6 (header (flash_load_app_header pf (of_nat i))) = ''PBLAPP'')"

lemma strncmp_take:
  "NUL \<notin> set p \<Longrightarrow> (strncmp h p (length p) = 0) = (take (length p) h = p)"
proof (induction p arbitrary: h)
  case Nil
  then show ?case by simp
next
  case (Cons c p)
  then have c: "c \<noteq> NUL" and p: "NUL \<notin> set p"
    by auto
  show ?case
  proof (cases h)
    case Nil
    with c show ?thesis
      by (simp add: char_at0_def of_char_diff_zero)
  next
    case (Cons d h')
    with c Cons.IH [OF p, of h'] show ?thesis
      by (auto simp add: char_at0_def of_char_diff_zero)
  qed
qed

lemma strncmp_magic: "(strncmp h ''PBLAPP'' 6 = 0) = (take 6 h = ''PBLAPP'')"
proof -
  have n: "NUL \<notin> set ''PBLAPP''"
    by (simp add: NUL_def)
  have l: "length ''PBLAPP'' = 6"
    by simp
  from strncmp_take [OF n, of h] show ?thesis
    by (simp only: l)
qed

lemma calloc_ok:
  assumes "False \<notin> set (allocs s)"
  shows "calloc s = (Some (brk s), s\<lparr>brk := Suc (brk s), allocs := tl (allocs s)\<rparr>)"
  using assms by (cases "allocs s") (auto simp add: calloc_def)

lemma create_app_ok:
  assumes "False \<notin> set (allocs s)"
  shows "fst (appmanager_create_app nm ty entry internal slot s) = Some (brk s)"
proof -
  let ?s1 = "s\<lparr>brk := Suc (brk s), allocs := tl (allocs s)\<rparr>"
  have "False \<notin> set (allocs ?s1)"
    using assms by (cases "allocs s") auto
  from calloc_ok [OF assms] calloc_ok [OF this] show ?thesis
    by (simp add: appmanager_create_app_def)
qed

text \<open>
  Creating a record and inserting it, when the allocations succeed: the record is new, it
  is appended, and everything else stays.
\<close>

lemma insert_created:
  assumes ok: "heap_ok s" and m: "manifest (heap s) (app_manifest_head s) as"
    and al: "False \<notin> set (allocs s)"
  shows "\<exists>s1 s2. appmanager_create_app nm ty entry internal slot s = (Some (brk s), s1) \<and>
           appmanager_add_to_manifest (Some (brk s)) s1 = Some s2 \<and>
           heap_ok s2 \<and> manifest (heap s2) (app_manifest_head s2) (as @ [brk s]) \<and>
           map_option unlinked (heap s2 (brk s)) =
             Some \<lparr>app_name = strcpy nm, app_main = entry, app_type = ty, app_header = None,
                    app_next = None, app_slot_id = slot, app_is_internal = internal\<rparr> \<and>
           (\<forall>a \<in> set as. map_option unlinked (heap s2 a) = map_option unlinked (heap s a)) \<and>
           False \<notin> set (allocs s2) \<and> brk s2 = Suc (Suc (brk s)) \<and>
           running_app s2 = running_app s \<and> app_task_handle s2 = app_task_handle s \<and>
           app_thread_manager_task_handle s2 = app_thread_manager_task_handle s \<and>
           app_message_queue s2 = app_message_queue s \<and>
           app_thread_queue s2 = app_thread_queue s \<and>
           app_stack_heap s2 = app_stack_heap s \<and> trace s2 = trace s"
proof -
  obtain app s1 where c: "appmanager_create_app nm ty entry internal slot s = (app, s1)"
    by (cases "appmanager_create_app nm ty entry internal slot s")
  with create_app_ok [OF al, of nm ty entry internal slot] have app: "app = Some (brk s)"
    by simp
  let ?p = "brk s"
  let ?r = "\<lparr>app_name = strcpy nm, app_main = entry, app_type = ty, app_header = None,
             app_next = None, app_slot_id = slot, app_is_internal = internal\<rparr>"
  from c app have h1: "heap s1 = (heap s)(?p \<mapsto> ?r)" and st: "statics s1 = statics s"
    and al1: "allocs s1 = tl (tl (allocs s))" and b1: "brk s1 = Suc (Suc (brk s))"
    by (cases rule: create_app_cases; simp)+
  have ok1: "heap_ok s1"
    using ok c by (rule heap_ok_create)
  have fresh: "?p \<notin> dom (heap s)"
    using ok by (auto simp add: heap_ok_def)
  then have nin: "?p \<notin> set as"
    using m manifest_in_dom by blast
  have m1: "manifest (heap s1) (app_manifest_head s1) as"
    using m nin st by (simp add: h1 manifest_upd_outside statics_def)
  have rp: "heap s1 ?p = Some ?r" "app_next ?r = None"
    by (simp_all add: h1)
  from add_to_manifest_Some [OF m1 rp nin] obtain s2 where s2:
    "appmanager_add_to_manifest (Some ?p) s1 = Some s2"
    "manifest (heap s2) (app_manifest_head s2) (as @ [?p])"
    "\<forall>a. a \<noteq> ?p \<longrightarrow> map_option unlinked (heap s2 a) = map_option unlinked (heap s1 a)"
    "heap s2 ?p = heap s1 ?p" "dom (heap s2) = dom (heap s1)"
    "s2 = s1\<lparr>heap := heap s2, app_manifest_head := app_manifest_head s2\<rparr>"
    by blast
  have fr: "brk s2 = brk s1" "allocs s2 = allocs s1" "running_app s2 = running_app s1"
    "app_task_handle s2 = app_task_handle s1"
    "app_thread_manager_task_handle s2 = app_thread_manager_task_handle s1"
    "app_message_queue s2 = app_message_queue s1" "app_thread_queue s2 = app_thread_queue s1"
    "app_stack_heap s2 = app_stack_heap s1" "trace s2 = trace s1"
    by (subst s2(6), simp)+
  have ok2: "heap_ok s2"
    using ok1 by (simp add: heap_ok_def s2(5) fr)
  have un: "\<forall>a \<in> set as. map_option unlinked (heap s2 a) = map_option unlinked (heap s a)"
  proof
    fix a assume "a \<in> set as"
    with nin have "a \<noteq> ?p" by auto
    with s2(3) show "map_option unlinked (heap s2 a) = map_option unlinked (heap s a)"
      by (simp add: h1)
  qed
  have al2: "False \<notin> set (allocs s2)"
  proof
    assume "False \<in> set (allocs s2)"
    then have "False \<in> set (tl (tl (allocs s)))"
      by (simp add: fr al1)
    then have "False \<in> set (allocs s)"
      by (metis list.sel(2) list.set_sel(2))
    with al show False by simp
  qed
  have new: "map_option unlinked (heap s2 ?p) = Some ?r"
    by (simp add: s2(4) h1 unlinked_def)
  from c app s2(1,2) ok2 new un al2 fr st b1 show ?thesis
    by (simp add: statics_def)
qed


lemma flash_reads_emit:
  "flash_reads (trace (emit e s)) =
     flash_reads (trace s) @ (case e of Flash_load_app_header slot \<Rightarrow> [slot] | _ \<Rightarrow> [])"
  by (simp add: flash_reads_def emit_def)

lemma emit_fields:
  "heap (emit e s) = heap s" "brk (emit e s) = brk s" "allocs (emit e s) = allocs s"
  "app_manifest_head (emit e s) = app_manifest_head s" "running_app (emit e s) = running_app s"
  "app_task_handle (emit e s) = app_task_handle s"
  "app_thread_manager_task_handle (emit e s) = app_thread_manager_task_handle s"
  "app_message_queue (emit e s) = app_message_queue s"
  "app_thread_queue (emit e s) = app_thread_queue s"
  "app_stack_heap (emit e s) = app_stack_heap s"
  by (simp_all add: emit_def)

lemma heap_ok_emit: "heap_ok (emit e s) = heap_ok s"
  by (simp add: heap_ok_def emit_fields)

lemma scan_any:
  assumes "32 - i = n" and "heap_ok s" and "manifest (heap s) (app_manifest_head s) as"
  shows "\<exists>s' new. flash_load_app_manifest_from pf i s = Some s' \<and>
           flash_reads (trace s') = flash_reads (trace s) @ map of_nat [i..<32] \<and>
           heap_ok s' \<and> manifest (heap s') (app_manifest_head s') (as @ new) \<and>
           map (\<lambda>a. map_option unlinked (heap s' a)) new =
             map (\<lambda>j. Some (scanned_app pf j))
               (allocated (filter (has_magic pf) [i..<32]) (allocs s)) \<and>
           (\<forall>a \<in> set as. map_option unlinked (heap s' a) = map_option unlinked (heap s a)) \<and>
           app_task_handle s' = app_task_handle s"
  using assms
proof (induction n arbitrary: i s as)
  case 0
  then have "\<not> i < 32" by simp
  with 0 show ?case
    by (subst flash_load_app_manifest_from.simps) simp
next
  case (Suc n)
  then have i: "i < 32" and n: "32 - Suc i = n"
    by simp_all
  let ?hdr = "flash_load_app_header pf (of_nat i)"
  let ?s1 = "emit (Flash_load_app_header (of_nat i)) s"
  have upt: "[i..<32] = i # [Suc i..<32]"
    using i by (simp add: upt_conv_Cons)
  show ?case
  proof (cases "has_magic pf i")
    case False
    then have nomagic: "strncmp (header ?hdr) ''PBLAPP'' 6 \<noteq> 0"
      by (simp add: strncmp_magic has_magic_def)
    have "heap_ok ?s1" "manifest (heap ?s1) (app_manifest_head ?s1) as"
      using Suc.prems by (simp_all add: heap_ok_emit emit_fields)
    from Suc.IH [OF n this] obtain s' new where r:
      "flash_load_app_manifest_from pf (Suc i) ?s1 = Some s'"
      "flash_reads (trace s') = flash_reads (trace ?s1) @ map of_nat [Suc i..<32]"
      "heap_ok s'" "manifest (heap s') (app_manifest_head s') (as @ new)"
      "map (\<lambda>a. map_option unlinked (heap s' a)) new =
             map (\<lambda>j. Some (scanned_app pf j))
               (allocated (filter (has_magic pf) [Suc i..<32]) (allocs ?s1))"
      "\<forall>a \<in> set as. map_option unlinked (heap s' a) = map_option unlinked (heap ?s1 a)"
      "app_task_handle s' = app_task_handle ?s1"
      by blast
    have "flash_load_app_manifest_from pf i s = Some s'"
      using i nomagic r(1) by (subst flash_load_app_manifest_from.simps) (simp add: Let_def)
    moreover have "flash_reads (trace s') = flash_reads (trace s) @ map of_nat [i..<32]"
      using r(2) by (simp add: flash_reads_emit upt)
    moreover have "map (\<lambda>a. map_option unlinked (heap s' a)) new =
             map (\<lambda>j. Some (scanned_app pf j))
               (allocated (filter (has_magic pf) [i..<32]) (allocs s))"
      using r(5) False by (simp add: upt emit_fields)
    ultimately show ?thesis
      using r(3,4,6,7) by (auto simp add: emit_fields)
  next
    case True
    then have magic: "strncmp (header ?hdr) ''PBLAPP'' 6 = 0"
      by (simp add: strncmp_magic has_magic_def)
    let ?s2 = "emit (KERN_LOG ''app'' APP_LOG_LEVEL_INFO ''VALID App Found %s''
                       [Str (cstr (name_chars ?hdr))]) ?s1"
    let ?p = "brk s"
    let ?new = "if create_succeeds (allocs s) then [?p] else []"
    have pre: "heap_ok ?s2" "manifest (heap ?s2) (app_manifest_head ?s2) as"
      using Suc.prems by (simp_all add: heap_ok_emit emit_fields)
    from insert_any [OF pre, of "name_chars ?hdr" APP_TYPE_FACE None False "of_nat i"]
    obtain app s3 s4 where raw:
      "appmanager_create_app (name_chars ?hdr) APP_TYPE_FACE None False (of_nat i) ?s2 = (app, s3)"
      "appmanager_add_to_manifest app s3 = Some s4"
      "heap_ok s4"
      "manifest (heap s4) (app_manifest_head s4)
         (as @ (if create_succeeds (allocs ?s2) then [brk ?s2] else []))"
      "create_succeeds (allocs ?s2) \<longrightarrow>
         map_option unlinked (heap s4 (brk ?s2)) =
           Some \<lparr>app_name = strcpy (name_chars ?hdr), app_main = None, app_type = APP_TYPE_FACE,
                  app_header = None, app_next = None, app_slot_id = of_nat i,
                  app_is_internal = False\<rparr>"
      "\<forall>a \<in> set as. map_option unlinked (heap s4 a) = map_option unlinked (heap ?s2 a)"
      "allocs s4 = create_rest (allocs ?s2)"
      "app_task_handle s4 = app_task_handle ?s2" "trace s4 = trace ?s2"
      by (elim exE conjE)
    have ins: "appmanager_create_app (name_chars ?hdr) APP_TYPE_FACE None False (of_nat i) ?s2 = (app, s3)"
      "appmanager_add_to_manifest app s3 = Some s4"
      "heap_ok s4" "manifest (heap s4) (app_manifest_head s4) (as @ ?new)"
      "create_succeeds (allocs s) \<longrightarrow>
         map_option unlinked (heap s4 ?p) = Some (scanned_app pf i)"
      "\<forall>a \<in> set as. map_option unlinked (heap s4 a) = map_option unlinked (heap s a)"
      "allocs s4 = create_rest (allocs s)" "trace s4 = trace ?s2"
      "app_task_handle s4 = app_task_handle s"
      using raw by (simp_all add: emit_fields scanned_app_def strcpy_def cong: if_cong)
    from Suc.IH [OF n ins(3,4)] obtain s' new where r:
      "flash_load_app_manifest_from pf (Suc i) s4 = Some s'"
      "flash_reads (trace s') = flash_reads (trace s4) @ map of_nat [Suc i..<32]"
      "heap_ok s'" "manifest (heap s') (app_manifest_head s') ((as @ ?new) @ new)"
      "map (\<lambda>a. map_option unlinked (heap s' a)) new =
             map (\<lambda>j. Some (scanned_app pf j))
               (allocated (filter (has_magic pf) [Suc i..<32]) (allocs s4))"
      "\<forall>a \<in> set (as @ ?new). map_option unlinked (heap s' a) = map_option unlinked (heap s4 a)"
      "app_task_handle s' = app_task_handle s4"
      by blast
    have run: "flash_load_app_manifest_from pf i s = Some s'"
      using i magic r(1) ins(1,2)
      by (subst flash_load_app_manifest_from.simps) (simp add: Let_def)
    have reads: "flash_reads (trace s') = flash_reads (trace s) @ map of_nat [i..<32]"
      using r(2) by (simp add: ins(8) flash_reads_emit upt)
    have p: "map (\<lambda>a. map_option unlinked (heap s' a)) ?new =
        (if create_succeeds (allocs s) then [Some (scanned_app pf i)] else [])"
      using r(6) ins(5) by simp
    have new: "map (\<lambda>a. map_option unlinked (heap s' a)) (?new @ new) =
             map (\<lambda>j. Some (scanned_app pf j))
               (allocated (filter (has_magic pf) [i..<32]) (allocs s))"
      using r(5) True p by (simp add: upt ins(7))
    have old: "\<forall>a \<in> set as. map_option unlinked (heap s' a) = map_option unlinked (heap s a)"
      using r(6) ins(6) by simp
    have m: "manifest (heap s') (app_manifest_head s') (as @ (?new @ new))"
      using r(4) by simp
    have th: "app_task_handle s' = app_task_handle s"
      using r(7) ins(9) by simp
    show ?thesis
      by (rule exI [of _ s'], rule exI [of _ "?new @ new"], intro conjI)
        (fact run reads r(3) m new old th)+
  qed
qed

lemma scan_from:
  assumes "32 - i = n" and "heap_ok s" and "manifest (heap s) (app_manifest_head s) as"
    and "False \<notin> set (allocs s)"
  shows "\<exists>s' new. flash_load_app_manifest_from pf i s = Some s' \<and>
           flash_reads (trace s') = flash_reads (trace s) @ map of_nat [i..<32] \<and>
           heap_ok s' \<and> manifest (heap s') (app_manifest_head s') (as @ new) \<and>
           map (\<lambda>a. map_option unlinked (heap s' a)) new =
             map (\<lambda>j. Some (scanned_app pf j)) (filter (has_magic pf) [i..<32]) \<and>
           (\<forall>a \<in> set as. map_option unlinked (heap s' a) = map_option unlinked (heap s a)) \<and>
           app_task_handle s' = app_task_handle s"
  using scan_any [OF assms(1-3), of pf] by (simp add: allocated_all [OF assms(4)])


text \<open>
  A small platform for concrete runs: an arena of 64 bytes, a stack of 8 words, an erased
  flash slot and a slot holding an application.
\<close>

definition blank_header :: ApplicationHeader where
  "blank_header =
     \<lparr>header = [CHR 0xFF, CHR 0xFF, CHR 0xFF, CHR 0xFF, CHR 0xFF, CHR 0xFF, CHR 0xFF, CHR 0xFF],
      sdk_version = \<lparr>major = 0xFF, minor = 0xFF\<rparr>,
      app_version = \<lparr>major = 0xFF, minor = 0xFF\<rparr>, app_size = 0xFFFF, offset = 0xFFFFFFFF,
      crc = 0xFFFFFFFF, name = replicate 32 (CHR 0xFF), company = replicate 32 (CHR 0xFF),
      icon_resource_id = 0xFFFFFFFF, sym_table_addr = 0xFFFFFFFF, flags = 0xFFFFFFFF,
      reloc_entries_count = 0xFFFFFFFF, virtual_size = 0xFFFF\<rparr>"

definition test_header :: "string \<Rightarrow> u32 \<Rightarrow> u32 \<Rightarrow> u32 \<Rightarrow> u32 \<Rightarrow> u32 \<Rightarrow> ApplicationHeader" where
  "test_header nm sz entry symaddr relocs vsize =
     \<lparr>header = ''PBLAPP'' @ [NUL, NUL], sdk_version = \<lparr>major = 5, minor = 0\<rparr>,
      app_version = \<lparr>major = 1, minor = 0\<rparr>, app_size = sz, offset = entry,
      crc = 0, name = nm @ replicate (32 - length nm) NUL, company = replicate 32 NUL,
      icon_resource_id = 0, sym_table_addr = symaddr, flags = 0,
      reloc_entries_count = relocs, virtual_size = vsize\<rparr>"

lemma name_chars_test_header:
  assumes "NUL \<notin> set nm" and "length nm < 32"
  shows "cstr (name_chars (test_header nm sz entry symaddr relocs vsize)) = nm"
  using assms by (simp add: name_chars_def test_header_def cstr_padded)

definition test_platform :: "(u8 \<Rightarrow> ApplicationHeader) \<Rightarrow> (u8 \<Rightarrow> nat \<Rightarrow> u8) \<Rightarrow> platform" where
  "test_platform headers images =
     \<lparr>MAX_APP_MEMORY_SIZE = 64, MAX_APP_STACK_SIZE = 8, arena_base = 0x20000000,
      sym = 0x08004000, flash_load_app_header = headers, flash_app_byte = images\<rparr>"

definition slot7_platform :: platform where
  "slot7_platform =
     test_platform (\<lambda>slot. if slot = 7 then test_header ''TestApp'' 16 8 4 0 24 else blank_header)
       (\<lambda>slot k. 0)"

lemma upt_0_32:
  "[0..<32] =
     [0, 1, 2, 3, 4, 5, 6, 7, 8, 9, 10, 11, 12, 13, 14, 15, 16, 17, 18, 19, 20, 21, 22, 23,
      24, 25, 26, 27, 28, 29, 30, 31 :: nat]"
  by code_simp

lemma slot7_magic: "filter (has_magic slot7_platform) [0..<32] = [7]"
  by (simp add: upt_0_32 has_magic_def slot7_platform_def test_platform_def test_header_def
      blank_header_def)

text \<open>
  A header whose name fills all 32 bytes of its member, so that the string read from
  \<^verbatim>\<open>header.name\<close> runs on into the company; and a flash with an application in slot 7 and
  this one in slot 9.
\<close>

definition unterminated_header :: ApplicationHeader where
  "unterminated_header =
     (test_header ''ABCDEFGHIJKLMNOPQRSTUVWXYZ012345'' 16 8 4 0 24)
       \<lparr>company := ''Acme'' @ replicate 28 NUL\<rparr>"

definition two_apps_platform :: platform where
  "two_apps_platform =
     test_platform
       (\<lambda>slot. if slot = 7 then test_header ''TestApp'' 16 8 4 0 24
               else if slot = 9 then unterminated_header else blank_header)
       (\<lambda>slot k. 0)"

lemma two_apps_magic: "filter (has_magic two_apps_platform) [0..<32] = [7, 9]"
  by (simp add: upt_0_32 has_magic_def two_apps_platform_def test_platform_def test_header_def
      blank_header_def unterminated_header_def)

text \<open>
  Claim C7, as the code has it. Started in a state whose manifest lists \<open>as\<close>, the flash
  scanner returns; it has read the headers of exactly the slots 0, 1, ..., 31, in this
  order (slot 31 is read, slot 32 is not); and the manifest then lists \<open>as\<close>, unchanged,
  followed by one new record for each slot whose header starts with the six bytes
  \<^verbatim>\<open>PBLAPP\<close> and for which the two allocations of \<^verbatim>\<open>_appmanager_create_app\<close> succeed, in slot
  order: a record of type \<^verbatim>\<open>APP_TYPE_FACE\<close>, not internal, with a NULL entry point, the slot
  index as its \<^verbatim>\<open>slot_id\<close> and the string at \<^verbatim>\<open>header.name\<close> as its name. Every other slot
  (no magic bytes, or a failed allocation) adds no record.
\<close>

theorem flash_scan_probes_and_appends:
  assumes "heap_ok s" and "manifest (heap s) (app_manifest_head s) as"
  shows "\<exists>s' new. appmanager_flash_load_app_manifest pf s = Some s' \<and>
           flash_reads (trace s') = flash_reads (trace s) @ map of_nat [0..<32] \<and>
           manifest (heap s') (app_manifest_head s') (as @ new) \<and>
           map (\<lambda>a. map_option unlinked (heap s' a)) new =
             map (\<lambda>i. Some (scanned_app pf i))
               (allocated (filter (has_magic pf) [0..<32]) (allocs s)) \<and>
           (\<forall>a \<in> set as. map_option unlinked (heap s' a) = map_option unlinked (heap s a))"
proof -
  have "32 - 0 = (32::nat)"
    by simp
  from scan_any [OF this assms, of pf] show ?thesis
    unfolding appmanager_flash_load_app_manifest_def by blast
qed

text \<open>
  With applications in slots 7 and 9 and the first allocation failing, slot 7 is passed
  over and one record is appended, for slot 9; its name is the 32 characters of the name
  member followed by the company.
\<close>

theorem flash_scan_probes_and_appends_witness:
  "\<exists>s' p. appmanager_flash_load_app_manifest two_apps_platform
              (state_S_System\<lparr>allocs := [False, True, True]\<rparr>) = Some s' \<and>
      flash_reads (trace s') = map of_nat [0..<32] \<and>
      manifest (heap s') (app_manifest_head s') [1, 3, p] \<and>
      map_option unlinked (heap s' p) =
        Some \<lparr>app_name = ''ABCDEFGHIJKLMNOPQRSTUVWXYZ012345Acme'', app_main = None,
               app_type = APP_TYPE_FACE, app_header = None, app_next = None, app_slot_id = 9,
               app_is_internal = False\<rparr>"
proof -
  let ?s = "state_S_System\<lparr>allocs := [False, True, True]\<rparr>"
  have ok: "heap_ok ?s"
    by (simp add: heap_ok_def state_S_System_def)
  have m: "manifest (heap ?s) (app_manifest_head ?s) [1, 3]"
    by (simp add: state_S_System_def face_def)
  have app: "scanned_app two_apps_platform 9 =
      \<lparr>app_name = ''ABCDEFGHIJKLMNOPQRSTUVWXYZ012345Acme'', app_main = None,
       app_type = APP_TYPE_FACE, app_header = None, app_next = None, app_slot_id = 9,
       app_is_internal = False\<rparr>"
    by (simp add: scanned_app_def two_apps_platform_def test_platform_def unterminated_header_def
        test_header_def name_chars_def company_chars_def cstr_Cons cstr_NULs [unfolded NUL_def]
        NUL_def)
  have al: "allocated (filter (has_magic two_apps_platform) [0..<32]) (allocs ?s) = [9]"
    by (simp add: two_apps_magic create_succeeds_def create_rest_def)
  from flash_scan_probes_and_appends [OF ok m, of two_apps_platform]
  obtain s' new where r:
    "appmanager_flash_load_app_manifest two_apps_platform ?s = Some s'"
    "flash_reads (trace s') = flash_reads (trace ?s) @ map of_nat [0..<32]"
    "manifest (heap s') (app_manifest_head s') ([1, 3] @ new)"
    "map (\<lambda>a. map_option unlinked (heap s' a)) new =
       map (\<lambda>i. Some (scanned_app two_apps_platform i))
         (allocated (filter (has_magic two_apps_platform) [0..<32]) (allocs ?s))"
    by blast
  from r(4) have l: "length new = 1"
    unfolding al using length_map [of "\<lambda>a. map_option unlinked (heap s' a)" new]
    by simp
  then obtain p where new: "new = [p]"
    by (cases new) simp_all
  from r(3) have "manifest (heap s') (app_manifest_head s') [1, 3, p]"
    by (simp add: new)
  moreover have hp: "map_option unlinked (heap s' p) = Some (scanned_app two_apps_platform 9)"
    using r(4) unfolding al new by simp
  moreover have "flash_reads (trace s') = map of_nat [0..<32]"
    using r(2) by (simp add: state_S_System_def flash_reads_def)
  ultimately show ?thesis
    using r(1) app by auto
qed

text \<open>
  The claim as it was stated (every slot with the magic bytes appends a record) fails when
  an allocation fails: slot 7 holds an application, all 32 slots are read, and the
  manifest still lists the two records it listed before.
\<close>

theorem failed_allocation_skips_slot_counterexample:
  "has_magic slot7_platform 7 \<and>
   appmanager_flash_load_app_manifest slot7_platform (state_S_System\<lparr>allocs := [False]\<rparr>)
     \<noteq> None \<and>
   flash_reads (trace (the (appmanager_flash_load_app_manifest slot7_platform
      (state_S_System\<lparr>allocs := [False]\<rparr>)))) = map of_nat [0..<32] \<and>
   manifest
     (heap (the (appmanager_flash_load_app_manifest slot7_platform
        (state_S_System\<lparr>allocs := [False]\<rparr>))))
     (app_manifest_head (the (appmanager_flash_load_app_manifest slot7_platform
        (state_S_System\<lparr>allocs := [False]\<rparr>))))
     [1, 3]"
proof -
  let ?s = "state_S_System\<lparr>allocs := [False]\<rparr>"
  have ok: "heap_ok ?s"
    by (simp add: heap_ok_def state_S_System_def)
  have m: "manifest (heap ?s) (app_manifest_head ?s) [1, 3]"
    by (simp add: state_S_System_def face_def)
  have al: "allocated (filter (has_magic slot7_platform) [0..<32]) (allocs ?s) = []"
    by (simp add: slot7_magic create_succeeds_def create_rest_def)
  have "32 - 0 = (32::nat)"
    by simp
  from scan_any [OF this ok m, of slot7_platform] obtain s' new where r:
    "flash_load_app_manifest_from slot7_platform 0 ?s = Some s'"
    "flash_reads (trace s') = flash_reads (trace ?s) @ map of_nat [0..<32]"
    "manifest (heap s') (app_manifest_head s') ([1, 3] @ new)"
    "map (\<lambda>a. map_option unlinked (heap s' a)) new =
       map (\<lambda>i. Some (scanned_app slot7_platform i))
         (allocated (filter (has_magic slot7_platform) [0..<32]) (allocs ?s))"
    by blast
  from r(4) have new: "new = []"
    unfolding al by simp
  have e: "appmanager_flash_load_app_manifest slot7_platform ?s = Some s'"
    using r(1) by (simp add: appmanager_flash_load_app_manifest_def)
  have "has_magic slot7_platform 7"
    by (simp add: has_magic_def slot7_platform_def test_platform_def test_header_def)
  moreover have "flash_reads (trace s') = map of_nat [0..<32]"
    using r(2) by (simp add: state_S_System_def flash_reads_def)
  moreover have "manifest (heap s') (app_manifest_head s') [1, 3]"
    using r(3) by (simp add: new)
  ultimately show ?thesis
    unfolding e by simp
qed


definition builtin_app :: "string \<Rightarrow> app_type \<Rightarrow> entry_point \<Rightarrow> App" where
  "builtin_app nm ty entry =
     \<lparr>app_name = nm, app_main = Some entry, app_type = ty, app_header = None,
      app_next = None, app_slot_id = 0, app_is_internal = True\<rparr>"

lemma app_start_heap:
  "heap (appmanager_app_start nm s) = heap s"
  "app_manifest_head (appmanager_app_start nm s) = app_manifest_head s"
  "brk (appmanager_app_start nm s) = brk s"
  by (simp_all add: appmanager_app_start_def appmanager_app_quit_def send_thread_queue_def
      send_message_queue_def emit_def split: prod.splits)

text \<open>
  The first half of \<^verbatim>\<open>appmanager_init\<close>: with the allocations succeeding, the three
  built-in records are at the addresses 1, 3 and 5, and the rest of the initialisation
  leaves the store as the flash scan leaves it.
\<close>

lemma builtins_inserted:
  assumes "False \<notin> set outcomes"
  shows "\<exists>s6. heap_ok s6 \<and> manifest (heap s6) (app_manifest_head s6) [1, 3, 5] \<and>
           map (\<lambda>a. map_option unlinked (heap s6 a)) [1, 3, 5] =
             [Some (builtin_app ''System'' APP_TYPE_SYSTEM systemapp_main),
              Some (builtin_app ''Simple'' APP_TYPE_FACE simple_main),
              Some (builtin_app ''NiVZ'' APP_TYPE_FACE nivz_main)] \<and>
           False \<notin> set (allocs s6) \<and> brk s6 = 7 \<and>
           (\<forall>s7. appmanager_flash_load_app_manifest pf (s6\<lparr>app_task_handle := None\<rparr>) = Some s7
              \<longrightarrow> (\<exists>s'. appmanager_init pf (boot_state pf outcomes) = Some s' \<and>
                     heap s' = heap s7 \<and> app_manifest_head s' = app_manifest_head s7))"
proof -
  let ?b = "boot_state pf outcomes"
  have s0: "heap_ok ?b" "manifest (heap ?b) (app_manifest_head ?b) []"
    "False \<notin> set (allocs ?b)" "brk ?b = 1"
    using assms by (simp_all add: boot_state_def heap_ok_def)
  from insert_created [OF s0(1-3), of "''System''" APP_TYPE_SYSTEM "Some systemapp_main" True 0]
  obtain s1 s2 where a:
    "appmanager_create_app ''System'' APP_TYPE_SYSTEM (Some systemapp_main) True 0 ?b
       = (Some 1, s1)"
    "appmanager_add_to_manifest (Some 1) s1 = Some s2" "heap_ok s2"
    "manifest (heap s2) (app_manifest_head s2) [1]"
    "map_option unlinked (heap s2 1) = Some (builtin_app ''System'' APP_TYPE_SYSTEM systemapp_main)"
    "False \<notin> set (allocs s2)" "brk s2 = 3"
    by (auto simp add: s0(4) builtin_app_def strcpy_def cstr_def NUL_def)
  from insert_created [OF a(3,4,6), of "''Simple''" APP_TYPE_FACE "Some simple_main" True 0]
  obtain s3 s4 where b:
    "appmanager_create_app ''Simple'' APP_TYPE_FACE (Some simple_main) True 0 s2 = (Some 3, s3)"
    "appmanager_add_to_manifest (Some 3) s3 = Some s4" "heap_ok s4"
    "manifest (heap s4) (app_manifest_head s4) [1, 3]"
    "map_option unlinked (heap s4 3) = Some (builtin_app ''Simple'' APP_TYPE_FACE simple_main)"
    "map_option unlinked (heap s4 1) = map_option unlinked (heap s2 1)"
    "False \<notin> set (allocs s4)" "brk s4 = 5"
    by (auto simp add: a(7) builtin_app_def strcpy_def cstr_def NUL_def)
  from insert_created [OF b(3,4,7), of "''NiVZ''" APP_TYPE_FACE "Some nivz_main" True 0]
  obtain s5 s6 where c:
    "appmanager_create_app ''NiVZ'' APP_TYPE_FACE (Some nivz_main) True 0 s4 = (Some 5, s5)"
    "appmanager_add_to_manifest (Some 5) s5 = Some s6" "heap_ok s6"
    "manifest (heap s6) (app_manifest_head s6) [1, 3, 5]"
    "map_option unlinked (heap s6 5) = Some (builtin_app ''NiVZ'' APP_TYPE_FACE nivz_main)"
    "map_option unlinked (heap s6 1) = map_option unlinked (heap s4 1)"
    "map_option unlinked (heap s6 3) = map_option unlinked (heap s4 3)"
    "False \<notin> set (allocs s6)" "brk s6 = 7"
    by (auto simp add: b(8) builtin_app_def strcpy_def cstr_def NUL_def)
  have u: "map (\<lambda>a. map_option unlinked (heap s6 a)) [1, 3, 5] =
             [Some (builtin_app ''System'' APP_TYPE_SYSTEM systemapp_main),
              Some (builtin_app ''Simple'' APP_TYPE_FACE simple_main),
              Some (builtin_app ''NiVZ'' APP_TYPE_FACE nivz_main)]"
    using a(5) b(5,6) c(5,6,7) by simp
  have tail: "\<exists>s'. appmanager_init pf ?b = Some s' \<and>
                     heap s' = heap s7 \<and> app_manifest_head s' = app_manifest_head s7"
    if "appmanager_flash_load_app_manifest pf (s6\<lparr>app_task_handle := None\<rparr>) = Some s7" for s7
    using that a(1,2) b(1,2) c(1,2)
    by (simp add: appmanager_init_def Let_def emit_fields app_start_heap)
  have all: "\<forall>s7. appmanager_flash_load_app_manifest pf (s6\<lparr>app_task_handle := None\<rparr>) = Some s7
              \<longrightarrow> (\<exists>s'. appmanager_init pf ?b = Some s' \<and>
                     heap s' = heap s7 \<and> app_manifest_head s' = app_manifest_head s7)"
    using tail by (intro allI impI)
  show ?thesis
    by (rule exI [of _ s6], intro conjI) (fact c(3) c(4) u c(8) c(9) all)+
qed

text \<open>
  The built-in records, as \<^verbatim>\<open>appmanager_init\<close> creates them, and the manifest it leaves at
  boot: the built-ins whose allocations succeeded, then the applications found in flash.
\<close>

definition builtins :: "App list" where
  "builtins =
     [builtin_app ''System'' APP_TYPE_SYSTEM systemapp_main,
      builtin_app ''Simple'' APP_TYPE_FACE simple_main,
      builtin_app ''NiVZ'' APP_TYPE_FACE nivz_main]"

lemma init_any:
  "\<exists>s' as. appmanager_init pf (boot_state pf outcomes) = Some s' \<and>
      manifest (heap s') (app_manifest_head s') as \<and>
      map (\<lambda>a. map_option unlinked (heap s' a)) as =
        map Some (allocated builtins outcomes) @
        map (\<lambda>j. Some (scanned_app pf j))
          (allocated (filter (has_magic pf) [0..<32])
             (create_rest (create_rest (create_rest outcomes))))"
proof -
  let ?b = "boot_state pf outcomes"
  let ?f = "\<lambda>s a. map_option unlinked (heap s a)"
  have s0: "heap_ok ?b" "manifest (heap ?b) (app_manifest_head ?b) []" "allocs ?b = outcomes"
    by (simp_all add: boot_state_def heap_ok_def)
  from insert_any [OF s0(1,2), of "''System''" APP_TYPE_SYSTEM "Some systemapp_main" True 0]
  obtain app1 s1 s2 n1 where a:
    "appmanager_create_app ''System'' APP_TYPE_SYSTEM (Some systemapp_main) True 0 ?b = (app1, s1)"
    "appmanager_add_to_manifest app1 s1 = Some s2" "heap_ok s2"
    "manifest (heap s2) (app_manifest_head s2) ([] @ n1)"
    "map (?f s2) n1 =
       (if create_succeeds outcomes
        then [Some (builtin_app ''System'' APP_TYPE_SYSTEM systemapp_main)] else [])"
    "allocs s2 = create_rest outcomes"
    by (auto simp add: s0(3) builtin_app_def strcpy_def cstr_def NUL_def)
  from insert_any [OF a(3,4), of "''Simple''" APP_TYPE_FACE "Some simple_main" True 0]
  obtain app2 s3 s4 n2 where b:
    "appmanager_create_app ''Simple'' APP_TYPE_FACE (Some simple_main) True 0 s2 = (app2, s3)"
    "appmanager_add_to_manifest app2 s3 = Some s4" "heap_ok s4"
    "manifest (heap s4) (app_manifest_head s4) (([] @ n1) @ n2)"
    "map (?f s4) n2 =
       (if create_succeeds (create_rest outcomes)
        then [Some (builtin_app ''Simple'' APP_TYPE_FACE simple_main)] else [])"
    "\<forall>a \<in> set ([] @ n1). ?f s4 a = ?f s2 a"
    "allocs s4 = create_rest (create_rest outcomes)"
    by (auto simp add: a(6) builtin_app_def strcpy_def cstr_def NUL_def)
  from insert_any [OF b(3,4), of "''NiVZ''" APP_TYPE_FACE "Some nivz_main" True 0]
  obtain app3 s5 s6 n3 where c:
    "appmanager_create_app ''NiVZ'' APP_TYPE_FACE (Some nivz_main) True 0 s4 = (app3, s5)"
    "appmanager_add_to_manifest app3 s5 = Some s6" "heap_ok s6"
    "manifest (heap s6) (app_manifest_head s6) ((([] @ n1) @ n2) @ n3)"
    "map (?f s6) n3 =
       (if create_succeeds (create_rest (create_rest outcomes))
        then [Some (builtin_app ''NiVZ'' APP_TYPE_FACE nivz_main)] else [])"
    "\<forall>a \<in> set (([] @ n1) @ n2). ?f s6 a = ?f s4 a"
    "allocs s6 = create_rest (create_rest (create_rest outcomes))"
    by (auto simp add: b(7) builtin_app_def strcpy_def cstr_def NUL_def)
  let ?t = "s6\<lparr>app_task_handle := None\<rparr>"
  have t: "heap_ok ?t" "manifest (heap ?t) (app_manifest_head ?t) (n1 @ n2 @ n3)"
    using c(3,4) by (simp_all add: heap_ok_def)
  have "32 - 0 = (32::nat)"
    by simp
  from scan_any [OF this t, of pf] obtain s7 new where d:
    "flash_load_app_manifest_from pf 0 ?t = Some s7"
    "manifest (heap s7) (app_manifest_head s7) ((n1 @ n2 @ n3) @ new)"
    "map (?f s7) new =
       map (\<lambda>j. Some (scanned_app pf j))
         (allocated (filter (has_magic pf) [0..<32]) (allocs ?t))"
    "\<forall>a \<in> set (n1 @ n2 @ n3). ?f s7 a = ?f ?t a"
    by blast
  obtain s' where s': "appmanager_init pf ?b = Some s'" "heap s' = heap s7"
    "app_manifest_head s' = app_manifest_head s7"
    using a(1,2) b(1,2) c(1,2) d(1)
    by (simp add: appmanager_init_def appmanager_flash_load_app_manifest_def Let_def
        emit_fields app_start_heap)
  have m1: "map (?f s7) n1 = map (?f s2) n1"
    using d(4) c(6) b(6) by simp
  have m2: "map (?f s7) n2 = map (?f s4) n2"
    using d(4) c(6) by simp
  have m3: "map (?f s7) n3 = map (?f s6) n3"
    using d(4) by simp
  have "map (?f s7) (n1 @ n2 @ n3) = map Some (allocated builtins outcomes)"
    unfolding map_append m1 m2 m3 a(5) b(5) c(5) by (simp add: builtins_def)
  with d(3) have "map (?f s') ((n1 @ n2 @ n3) @ new) =
        map Some (allocated builtins outcomes) @
        map (\<lambda>j. Some (scanned_app pf j))
          (allocated (filter (has_magic pf) [0..<32])
             (create_rest (create_rest (create_rest outcomes))))"
    by (simp add: s'(2) c(7))
  with s'(1) d(2) show ?thesis
    unfolding s'(2)[symmetric] s'(3)[symmetric] by blast
qed

lemma no_magic_filter:
  assumes "\<forall>i. i < 32 \<longrightarrow> \<not> has_magic pf i"
  shows "filter (has_magic pf) [0..<32] = []"
  using assms by (simp add: filter_empty_conv)

text \<open>
  Claim C8, as the code has it. If none of the 32 slots has the magic bytes,
  \<^verbatim>\<open>appmanager_init\<close> run at boot returns, and the manifest enumerated from
  \<^verbatim>\<open>app_manager_get_apps_head\<close> lists exactly those of the three built-in records System,
  Simple and NiVZ whose two allocations succeeded, in this order, each internal, with its
  entry point and type. There is no fatal path: a built-in whose allocation fails is left
  out and the initialisation goes on.
\<close>

theorem init_builtins_only:
  assumes "\<forall>i. i < 32 \<longrightarrow> \<not> has_magic pf i"
  shows "\<exists>s' as. appmanager_init pf (boot_state pf outcomes) = Some s' \<and>
           manifest (heap s') (app_manager_get_apps_head s') as \<and>
           map (\<lambda>a. map_option unlinked (heap s' a)) as =
             map Some (allocated builtins outcomes)"
  using init_any [of pf outcomes]
  by (simp add: no_magic_filter [OF assms] app_manager_get_apps_head_def)

definition empty_flash_platform :: platform where
  "empty_flash_platform = test_platform (\<lambda>slot. blank_header) (\<lambda>slot k. 0xFF)"

text \<open>
  The theorem on a platform whose flash is erased, with no allocation failing: the three
  built-in records, System first.
\<close>

theorem init_builtins_only_witness:
  "\<exists>s' as. appmanager_init empty_flash_platform (boot_state empty_flash_platform []) = Some s' \<and>
      manifest (heap s') (app_manager_get_apps_head s') as \<and>
      map (\<lambda>a. map_option unlinked (heap s' a)) as =
        [Some (builtin_app ''System'' APP_TYPE_SYSTEM systemapp_main),
         Some (builtin_app ''Simple'' APP_TYPE_FACE simple_main),
         Some (builtin_app ''NiVZ'' APP_TYPE_FACE nivz_main)]"
proof -
  have f: "\<forall>i. i < 32 \<longrightarrow> \<not> has_magic empty_flash_platform i"
    by (simp add: has_magic_def empty_flash_platform_def test_platform_def blank_header_def)
  have a: "map Some (allocated builtins []) =
        [Some (builtin_app ''System'' APP_TYPE_SYSTEM systemapp_main),
         Some (builtin_app ''Simple'' APP_TYPE_FACE simple_main),
         Some (builtin_app ''NiVZ'' APP_TYPE_FACE nivz_main)]"
    by (simp add: builtins_def create_succeeds_def create_rest_def)
  from init_builtins_only [OF f, of "[]"] show ?thesis
    unfolding a .
qed

text \<open>
  The claim as it was stated (the manifest holds System, Simple and NiVZ) fails when the
  first allocation fails: the initialisation returns and the manifest lists Simple and
  NiVZ only.
\<close>

theorem init_allocation_failed_counterexample:
  "filter (has_magic empty_flash_platform) [0..<32] = [] \<and>
   appmanager_init empty_flash_platform (boot_state empty_flash_platform [False]) \<noteq> None \<and>
   manifest
     (heap (the (appmanager_init empty_flash_platform (boot_state empty_flash_platform [False]))))
     (app_manager_get_apps_head
        (the (appmanager_init empty_flash_platform (boot_state empty_flash_platform [False]))))
     [1, 3] \<and>
   map_option unlinked
     (heap (the (appmanager_init empty_flash_platform (boot_state empty_flash_platform [False]))) 1)
     = Some (builtin_app ''Simple'' APP_TYPE_FACE simple_main) \<and>
   map_option unlinked
     (heap (the (appmanager_init empty_flash_platform (boot_state empty_flash_platform [False]))) 3)
     = Some (builtin_app ''NiVZ'' APP_TYPE_FACE nivz_main)"
proof -
  let ?pf = empty_flash_platform
  let ?b = "boot_state ?pf [False]"
  let ?c = "boot_state ?pf []"
  have f: "\<forall>i. i < 32 \<longrightarrow> \<not> has_magic ?pf i"
    by (simp add: has_magic_def empty_flash_platform_def test_platform_def blank_header_def)
  have a: "appmanager_create_app ''System'' APP_TYPE_SYSTEM (Some systemapp_main) True 0 ?b
      = (None, ?c)"
    by (simp add: appmanager_create_app_def calloc_def boot_state_def)
  have a2: "appmanager_add_to_manifest None ?c = Some ?c"
    by (simp add: appmanager_add_to_manifest_def boot_state_def)
  have s0: "heap_ok ?c" "manifest (heap ?c) (app_manifest_head ?c) []"
    "False \<notin> set (allocs ?c)" "brk ?c = 1"
    by (simp_all add: boot_state_def heap_ok_def)
  from insert_created [OF s0(1-3), of "''Simple''" APP_TYPE_FACE "Some simple_main" True 0]
  obtain s3 s4 where b:
    "appmanager_create_app ''Simple'' APP_TYPE_FACE (Some simple_main) True 0 ?c = (Some 1, s3)"
    "appmanager_add_to_manifest (Some 1) s3 = Some s4" "heap_ok s4"
    "manifest (heap s4) (app_manifest_head s4) [1]"
    "map_option unlinked (heap s4 1) = Some (builtin_app ''Simple'' APP_TYPE_FACE simple_main)"
    "False \<notin> set (allocs s4)" "brk s4 = 3"
    by (auto simp add: s0(4) builtin_app_def strcpy_def cstr_def NUL_def)
  from insert_created [OF b(3,4,6), of "''NiVZ''" APP_TYPE_FACE "Some nivz_main" True 0]
  obtain s5 s6 where c:
    "appmanager_create_app ''NiVZ'' APP_TYPE_FACE (Some nivz_main) True 0 s4 = (Some 3, s5)"
    "appmanager_add_to_manifest (Some 3) s5 = Some s6" "heap_ok s6"
    "manifest (heap s6) (app_manifest_head s6) [1, 3]"
    "map_option unlinked (heap s6 3) = Some (builtin_app ''NiVZ'' APP_TYPE_FACE nivz_main)"
    "map_option unlinked (heap s6 1) = map_option unlinked (heap s4 1)"
    by (auto simp add: b(7) builtin_app_def strcpy_def cstr_def NUL_def)
  let ?t = "s6\<lparr>app_task_handle := None\<rparr>"
  have t: "heap_ok ?t" "manifest (heap ?t) (app_manifest_head ?t) [1, 3]"
    using c(3,4) by (simp_all add: heap_ok_def)
  have "32 - 0 = (32::nat)"
    by simp
  from scan_any [OF this t, of ?pf] obtain s7 new where d:
    "flash_load_app_manifest_from ?pf 0 ?t = Some s7"
    "manifest (heap s7) (app_manifest_head s7) ([1, 3] @ new)"
    "map (\<lambda>a. map_option unlinked (heap s7 a)) new =
       map (\<lambda>j. Some (scanned_app ?pf j))
         (allocated (filter (has_magic ?pf) [0..<32]) (allocs ?t))"
    "\<forall>a \<in> set [1, 3]. map_option unlinked (heap s7 a) = map_option unlinked (heap ?t a)"
    by blast
  from d(3) have new: "new = []"
    by (simp add: no_magic_filter [OF f])
  obtain s' where s': "appmanager_init ?pf ?b = Some s'" "heap s' = heap s7"
    "app_manifest_head s' = app_manifest_head s7"
    using a a2 b(1,2) c(1,2) d(1)
    by (simp add: appmanager_init_def appmanager_flash_load_app_manifest_def Let_def
        emit_fields app_start_heap)
  have "manifest (heap s') (app_manager_get_apps_head s') [1, 3]"
    using d(2) by (simp add: new s' app_manager_get_apps_head_def)
  moreover have "map_option unlinked (heap s' 1)
      = Some (builtin_app ''Simple'' APP_TYPE_FACE simple_main)"
    using d(4) c(6) b(5) by (simp add: s')
  moreover have "map_option unlinked (heap s' 3)
      = Some (builtin_app ''NiVZ'' APP_TYPE_FACE nivz_main)"
    using d(4) c(5) by (simp add: s')
  ultimately show ?thesis
    unfolding s'(1) using no_magic_filter [OF f] by simp
qed

subsection \<open>The arena\<close>

text \<open>
  \<^verbatim>\<open>app_stack_heap\<close> is a union of a byte array of \<^verbatim>\<open>MAX_APP_MEMORY_SIZE\<close> bytes and a word
  array over the same bytes (little-endian, as on the target). An access outside the
  array is undefined in C: the model stops there with the fault \<open>Out_of_arena\<close>.
\<close>

definition and_then :: "fault + 'a \<Rightarrow> ('a \<Rightarrow> fault + 'b) \<Rightarrow> fault + 'b" where
  "and_then r f = (case r of Inl e \<Rightarrow> Inl e | Inr x \<Rightarrow> f x)"

definition emits :: "event list \<Rightarrow> am_state \<Rightarrow> am_state" where
  "emits es s = s\<lparr>trace := trace s @ es\<rparr>"

definition le32 :: "u8 \<Rightarrow> u8 \<Rightarrow> u8 \<Rightarrow> u8 \<Rightarrow> u32" where
  "le32 b0 b1 b2 b3 =
     ucast b0 OR push_bit 8 (ucast b1) OR push_bit 16 (ucast b2) OR push_bit 24 (ucast b3)"

definition byte_of :: "u32 \<Rightarrow> nat \<Rightarrow> u8" where
  "byte_of w k = ucast (drop_bit (8 * k) w)"

text \<open>\<^verbatim>\<open>word_buf[k]\<close>, read and written.\<close>

definition read_word :: "nat \<Rightarrow> u8 list \<Rightarrow> fault + u32" where
  "read_word k a =
     (if 4 * k + 4 \<le> length a
      then Inr (le32 (a ! (4 * k)) (a ! (4 * k + 1)) (a ! (4 * k + 2)) (a ! (4 * k + 3)))
      else Inl Out_of_arena)"

definition write_word :: "nat \<Rightarrow> u32 \<Rightarrow> u8 list \<Rightarrow> fault + u8 list" where
  "write_word k w a =
     (if 4 * k + 4 \<le> length a
      then Inr (a[4 * k := byte_of w 0, 4 * k + 1 := byte_of w 1,
                  4 * k + 2 := byte_of w 2, 4 * k + 3 := byte_of w 3])
      else Inl Out_of_arena)"

text \<open>\<^verbatim>\<open>byte_buf[i] = b\<close>.\<close>

definition write_byte :: "nat \<Rightarrow> u8 \<Rightarrow> u8 list \<Rightarrow> fault + u8 list" where
  "write_byte i b a = (if i < length a then Inr (a[i := b]) else Inl Out_of_arena)"

text \<open>\<^verbatim>\<open>memset(&byte_buf[start], c, n)\<close>.\<close>

definition memset :: "nat \<Rightarrow> u8 \<Rightarrow> nat \<Rightarrow> u8 list \<Rightarrow> fault + u8 list" where
  "memset start c n a =
     (if start + n \<le> length a then Inr (take start a @ replicate n c @ drop (start + n) a)
      else Inl Out_of_arena)"

text \<open>\<^verbatim>\<open>flash_load_app(slot, byte_buf, n)\<close>: \<open>n\<close> bytes of the image to the start of the arena.\<close>

definition flash_load_app :: "platform \<Rightarrow> u8 \<Rightarrow> nat \<Rightarrow> u8 list \<Rightarrow> fault + u8 list" where
  "flash_load_app pf slot n a =
     (if n \<le> length a then Inr (map (flash_app_byte pf slot) [0..<n] @ drop n a)
      else Inl Out_of_arena)"

subsection \<open>The dynamic loader\<close>

text \<open>
  One turn of the relocation loop, for entry \<open>i\<close> of the table \<^verbatim>\<open>got\<close> that starts at word
  \<open>got\<close>: \<^verbatim>\<open>existing = word_buf[got[i]/4]\<close>, \<^verbatim>\<open>existing /= 4\<close>,
  \<^verbatim>\<open>word_buf[got[i]/4] = (uintptr_t)(word_buf + existing)\<close>. Addresses are 32 bits wide.
\<close>

definition relocate_entry :: "platform \<Rightarrow> nat \<Rightarrow> nat \<Rightarrow> u8 list \<Rightarrow> fault + u8 list" where
  "relocate_entry pf got i a =
     and_then (read_word (got + i) a) (\<lambda>r.
     and_then (read_word (unat (r div 4)) a) (\<lambda>existing.
     write_word (unat (r div 4)) (arena_base pf + 4 * (existing div 4)) a))"

function relocate_from :: "platform \<Rightarrow> nat \<Rightarrow> nat \<Rightarrow> nat \<Rightarrow> u8 list \<Rightarrow> fault + u8 list" where
  "relocate_from pf got count i a =
     (if i < count then
        (case relocate_entry pf got i a of
           Inl e \<Rightarrow> Inl e
         | Inr a' \<Rightarrow> relocate_from pf got count (Suc i) a')
      else Inr a)"
  by pat_completeness auto
termination
  by (relation "measure (\<lambda>(pf, got, count, i, a). count - i)") auto

declare relocate_from.simps [simp del]

definition load_image :: "platform \<Rightarrow> u8 \<Rightarrow> ApplicationHeader \<Rightarrow> u8 list \<Rightarrow> fault + u8 list" where
  "load_image pf slot hdr a =
     flash_load_app pf slot (unat (app_size hdr + reloc_entries_count hdr * 4)) a"

definition relocate_got :: "platform \<Rightarrow> ApplicationHeader \<Rightarrow> u8 list \<Rightarrow> fault + u8 list" where
  "relocate_got pf hdr a =
     (if reloc_entries_count hdr > 0
      then relocate_from pf (unat (app_size hdr div 4)) (unat (reloc_entries_count hdr)) 0 a
      else Inr a)"

definition zero_bss :: "ApplicationHeader \<Rightarrow> u8 list \<Rightarrow> fault + u8 list" where
  "zero_bss hdr a =
     memset (unat (app_size hdr)) 0 (unat (virtual_size hdr - app_size hdr)) a"

definition install_sym :: "platform \<Rightarrow> ApplicationHeader \<Rightarrow> u8 list \<Rightarrow> fault + u8 list" where
  "install_sym pf hdr a =
     and_then (write_byte (unat (sym_table_addr hdr)) (ucast (sym pf AND 0xFF)) a) (\<lambda>a1.
     and_then (write_byte (unat (sym_table_addr hdr + 1))
                 (ucast (drop_bit 8 (sym pf) AND 0xFF)) a1) (\<lambda>a2.
     and_then (write_byte (unat (sym_table_addr hdr + 2))
                 (ucast (drop_bit 16 (sym pf) AND 0xFF)) a2) (\<lambda>a3.
     write_byte (unat (sym_table_addr hdr + 3)) (ucast (drop_bit 24 (sym pf) AND 0xFF)) a3)))"

definition app_signature_log :: "ApplicationHeader \<Rightarrow> event list" where
  "app_signature_log hdr =
     [KERN_LOG ''app'' APP_LOG_LEVEL_DEBUG ''App signature:'' [],
      KERN_LOG ''app'' APP_LOG_LEVEL_DEBUG ''H:    %s'' [Str (cstr (header_chars hdr))],
      KERN_LOG ''app'' APP_LOG_LEVEL_DEBUG ''SDKv: %d.%d''
        [Num (unat (major (sdk_version hdr))), Num (unat (minor (sdk_version hdr)))],
      KERN_LOG ''app'' APP_LOG_LEVEL_DEBUG ''Appv: %d.%d''
        [Num (unat (major (app_version hdr))), Num (unat (minor (app_version hdr)))],
      KERN_LOG ''app'' APP_LOG_LEVEL_DEBUG ''AppSz:%x'' [Num (unat (app_size hdr))],
      KERN_LOG ''app'' APP_LOG_LEVEL_DEBUG ''AppOf:0x%x'' [Num (unat (offset hdr))],
      KERN_LOG ''app'' APP_LOG_LEVEL_DEBUG ''AppCr:%d'' [Num (unat (crc hdr))],
      KERN_LOG ''app'' APP_LOG_LEVEL_DEBUG ''Name: %s'' [Str (cstr (name_chars hdr))],
      KERN_LOG ''app'' APP_LOG_LEVEL_DEBUG ''Cmpy: %s'' [Str (cstr (company_chars hdr))],
      KERN_LOG ''app'' APP_LOG_LEVEL_DEBUG ''Icon: %d'' [Num (unat (icon_resource_id hdr))],
      KERN_LOG ''app'' APP_LOG_LEVEL_DEBUG ''Sym:  0x%x'' [Num (unat (sym_table_addr hdr))],
      KERN_LOG ''app'' APP_LOG_LEVEL_DEBUG ''Flags:%d'' [Num (unat (flags hdr))],
      KERN_LOG ''app'' APP_LOG_LEVEL_DEBUG ''Reloc:%d'' [Num (unat (reloc_entries_count hdr))],
      KERN_LOG ''app'' APP_LOG_LEVEL_DEBUG ''VSize 0x%x'' [Num (unat (virtual_size hdr))]]"

text \<open>The task of a loaded application, and the size and place of its heap.\<close>

definition dynapp_task :: "platform \<Rightarrow> ApplicationHeader \<Rightarrow> task" where
  "dynapp_task pf hdr =
     \<lparr>task_code = Arena_code (arena_base pf + offset hdr), task_name = ''dynapp'',
      task_stack_depth = MAX_APP_STACK_SIZE pf, task_priority = 6,
      task_stack = Arena_stack
        (arena_base pf + 4 * (MAX_APP_MEMORY_SIZE pf div 4 - MAX_APP_STACK_SIZE pf))\<rparr>"

definition heap_size :: "platform \<Rightarrow> ApplicationHeader \<Rightarrow> u32" where
  "heap_size pf hdr = (MAX_APP_MEMORY_SIZE pf - virtual_size hdr) - MAX_APP_STACK_SIZE pf * 4"

text \<open>
  The branch \<^verbatim>\<open>if (!app->is_internal)\<close> of \<^verbatim>\<open>_appmanager_app_thread\<close>: header, image,
  relocation, bss, symbol table, log, heap, task.
\<close>

definition load_app :: "platform \<Rightarrow> App \<Rightarrow> am_state \<Rightarrow> fault + am_state" where
  "load_app pf app s =
     (let slot = app_slot_id app;
          hdr = flash_load_app_header pf slot;
          s1 = emits [Flash_load_app_header slot,
                      Flash_load_app slot (app_size hdr + reloc_entries_count hdr * 4)] s
      in and_then (load_image pf slot hdr (app_stack_heap s1)) (\<lambda>a1.
         and_then (relocate_got pf hdr a1) (\<lambda>a2.
         and_then (zero_bss hdr a2) (\<lambda>a3.
         and_then (install_sym pf hdr a3) (\<lambda>a4.
         Inr ((emits
                (app_signature_log hdr @
                 [KERN_LOG ''app'' APP_LOG_LEVEL_DEBUG ''Base %x heap %x sz %d stack %x sz %d''
                    [Num (unat (arena_base pf)), Num (unat (arena_base pf + virtual_size hdr)),
                     Num (unat (heap_size pf hdr)),
                     Num (unat (arena_base pf +
                        4 * (MAX_APP_MEMORY_SIZE pf div 4 - MAX_APP_STACK_SIZE pf))),
                     Num (unat (MAX_APP_STACK_SIZE pf))],
                  AppHeapInit (heap_size pf hdr) (arena_base pf + virtual_size hdr),
                  TaskCreateStatic (dynapp_task pf hdr)])
                (s1\<lparr>app_stack_heap := a4\<rparr>))
              \<lparr>app_task_handle := Some (dynapp_task pf hdr)\<rparr>))))))"

text \<open>The other branch: an internal application gets the whole arena as heap and stack.\<close>

definition internal_task :: "platform \<Rightarrow> App \<Rightarrow> task" where
  "internal_task pf app =
     \<lparr>task_code = Host_function (app_main app), task_name = ''dynapp'',
      task_stack_depth = MAX_APP_STACK_SIZE pf, task_priority = 6,
      task_stack = Arena_stack
        (arena_base pf + 4 * (MAX_APP_MEMORY_SIZE pf div 4 - MAX_APP_STACK_SIZE pf))\<rparr>"

definition spawn_internal :: "platform \<Rightarrow> App \<Rightarrow> am_state \<Rightarrow> am_state" where
  "spawn_internal pf app s =
     (emits [AppHeapInit (MAX_APP_MEMORY_SIZE pf - MAX_APP_STACK_SIZE pf * 4) (arena_base pf),
             TaskCreateStatic (internal_task pf app)] s)
       \<lparr>app_task_handle := Some (internal_task pf app)\<rparr>"

subsection \<open>The manager thread\<close>

datatype thread_result = Waiting | Returned | Faulted fault

text \<open>
  The body of the loop of \<^verbatim>\<open>_appmanager_app_thread\<close> once \<^verbatim>\<open>xQueueReceive\<close> has delivered
  \<open>am\<close>: \<open>None\<close> as result means the loop goes round again, \<open>Some\<close> that the thread has left
  it. Only start requests, whose payload is a name, are sent to the thread queue.
\<close>

definition payload_name :: "payload_ptr \<Rightarrow> string" where
  "payload_name p = (case p of Name_payload nm \<Rightarrow> nm | _ \<Rightarrow> [])"

definition app_thread_body ::
  "platform \<Rightarrow> AppMessage \<Rightarrow> am_state \<Rightarrow> (thread_result option \<times> am_state) option" where
  "app_thread_body pf am s =
     (let app_name = payload_name (payload am);
          s1 = emits [KERN_LOG ''app'' APP_LOG_LEVEL_INFO ''Starting app %s'' [Str (cstr app_name)],
                      QueueReset Message_queue]
                 (s\<lparr>app_message_queue := xQueueReset (app_message_queue s)\<rparr>)
      in if app_manifest_head s1 = None then
           Some (Some Returned,
                 emits [KERN_LOG ''app'' APP_LOG_LEVEL_ERROR ''No Apps found!'' [],
                        Assert_failed ''No Apps''] s1)
         else
           (case appmanager_get_app app_name s1 of
              None \<Rightarrow> None
            | Some (None, s2) \<Rightarrow> Some (Some Returned, s2)
            | Some (Some app, s2) \<Rightarrow>
                (case heap s2 app of
                   None \<Rightarrow> None
                 | Some rec \<Rightarrow>
                     (let s3 = s2\<lparr>running_app := Some app\<rparr>;
                          s4 = (if app_task_handle s3 \<noteq> None
                                then emit (TaskDelete (app_task_handle s3)) s3 else s3)
                      in if \<not> app_is_internal rec then
                           (case load_app pf rec s4 of
                              Inl f \<Rightarrow> Some (Some (Faulted f), s4)
                            | Inr s5 \<Rightarrow> Some (None, s5))
                         else Some (None, spawn_internal pf rec s4)))))"


lemma and_then_Inr:
  "(and_then r f = Inr y) = (\<exists>x. r = Inr x \<and> f x = Inr y)"
  by (cases r) (simp_all add: and_then_def)

lemma get_app_state:
  assumes "appmanager_get_app query s = Some (r, s')"
  shows "heap s' = heap s" "brk s' = brk s" "allocs s' = allocs s"
    "app_manifest_head s' = app_manifest_head s" "running_app s' = running_app s"
    "app_message_queue s' = app_message_queue s" "app_thread_queue s' = app_thread_queue s"
    "app_task_handle s' = app_task_handle s" "app_stack_heap s' = app_stack_heap s"
  using assms
  by (auto simp add: appmanager_get_app_def emit_def split: option.splits)

lemma load_app_state:
  assumes "load_app pf app s = Inr s'"
  shows "heap s' = heap s" "brk s' = brk s" "allocs s' = allocs s"
    "app_manifest_head s' = app_manifest_head s" "running_app s' = running_app s"
    "app_message_queue s' = app_message_queue s" "app_thread_queue s' = app_thread_queue s"
    "app_task_handle s' = Some (dynapp_task pf (flash_load_app_header pf (app_slot_id app)))"
  using assms
  by (auto simp add: load_app_def Let_def and_then_Inr emits_def)

lemma thread_body_queue:
  assumes "app_thread_body pf am s = Some (r, s')"
  shows "app_thread_queue s' = app_thread_queue s"
proof -
  let ?s1 = "emits [KERN_LOG ''app'' APP_LOG_LEVEL_INFO ''Starting app %s''
                      [Str (cstr (payload_name (payload am)))],
                    QueueReset Message_queue]
                 (s\<lparr>app_message_queue := xQueueReset (app_message_queue s)\<rparr>)"
  have q1: "app_thread_queue ?s1 = app_thread_queue s"
    by (simp add: emits_def)
  show ?thesis
  proof (cases "app_manifest_head ?s1 = None")
    case True
    with assms have "s' = emits [KERN_LOG ''app'' APP_LOG_LEVEL_ERROR ''No Apps found!'' [],
                        Assert_failed ''No Apps''] ?s1"
      by (simp add: app_thread_body_def Let_def)
    then show ?thesis
      by (simp add: emits_def)
  next
    case False
    with assms obtain found s2 where g:
      "appmanager_get_app (payload_name (payload am)) ?s1 = Some (found, s2)"
      by (auto simp add: app_thread_body_def Let_def split: option.splits)
    then have q2: "app_thread_queue s2 = app_thread_queue s"
      using get_app_state(7) q1 by simp
    show ?thesis
    proof (cases found)
      case None
      with assms False g have "s' = s2"
        by (simp add: app_thread_body_def Let_def)
      with q2 show ?thesis by simp
    next
      case (Some app)
      with assms False g obtain rec where rec: "heap s2 app = Some rec"
        by (auto simp add: app_thread_body_def Let_def split: option.splits)
      let ?s3 = "s2\<lparr>running_app := Some app\<rparr>"
      let ?s4 = "if app_task_handle ?s3 \<noteq> None
                 then emit (TaskDelete (app_task_handle ?s3)) ?s3 else ?s3"
      have q4: "app_thread_queue ?s4 = app_thread_queue s"
        using q2 by (simp add: emit_def)
      show ?thesis
      proof (cases "app_is_internal rec")
        case True
        with assms False g Some rec have "s' = spawn_internal pf rec ?s4"
          by (simp add: app_thread_body_def Let_def)
        with q4 show ?thesis
          by (simp add: spawn_internal_def emits_def)
      next
        case ext: False
        show ?thesis
        proof (cases "load_app pf rec ?s4")
          case (Inl f)
          with assms False g Some rec ext have "s' = ?s4"
            by (simp add: app_thread_body_def Let_def)
          with q4 show ?thesis by simp
        next
          case (Inr s5)
          with assms False g Some rec ext have "s' = s5"
            by (simp add: app_thread_body_def Let_def)
          moreover from Inr have "app_thread_queue s5 = app_thread_queue ?s4"
            by (rule load_app_state)
          ultimately show ?thesis
            using q4 by simp
        qed
      qed
    qed
  qed
qed

text \<open>
  \<^verbatim>\<open>_appmanager_app_thread\<close>: the loop \<^verbatim>\<open>for( ;; )\<close> takes the start requests from the
  thread queue one after the other. It ends in \<^verbatim>\<open>xQueueReceive\<close> on an empty queue
  (\<open>Waiting\<close>), with a \<^verbatim>\<open>return\<close> of the thread function, or with a fault.
\<close>

function appmanager_app_thread :: "platform \<Rightarrow> am_state \<Rightarrow> (thread_result \<times> am_state) option" where
  "appmanager_app_thread pf s =
     (case q_items (app_thread_queue s) of
        [] \<Rightarrow> Some (Waiting, s)
      | am # rest \<Rightarrow>
          (case app_thread_body pf am
                  (s\<lparr>app_thread_queue := (app_thread_queue s)\<lparr>q_items := rest\<rparr>\<rparr>) of
             None \<Rightarrow> None
           | Some (Some r, s') \<Rightarrow> Some (r, s')
           | Some (None, s') \<Rightarrow> appmanager_app_thread pf s'))"
  by pat_completeness auto
termination
proof (relation "measure (\<lambda>(pf, s). length (q_items (app_thread_queue s)))")
  show "wf (measure (\<lambda>(pf, s). length (q_items (app_thread_queue s))))"
    by simp
next
  fix pf s am rest x2 x y
  assume q: "q_items (app_thread_queue s) = am # rest"
    and b: "app_thread_body pf am
              (s\<lparr>app_thread_queue := (app_thread_queue s)\<lparr>q_items := rest\<rparr>\<rparr>) = Some x2"
    and x: "(x, y) = x2" and "x = None"
  then have "app_thread_queue y = (app_thread_queue s)\<lparr>q_items := rest\<rparr>"
    using thread_body_queue [of pf am _ x y] by simp
  with q show "((pf, y), (pf, s)) \<in> measure (\<lambda>(pf, s). length (q_items (app_thread_queue s)))"
    by simp
qed

declare appmanager_app_thread.simps [simp del]

subsection \<open>The arena through a load\<close>

lemma le32_bytes: "le32 (byte_of w 0) (byte_of w 1) (byte_of w 2) (byte_of w 3) = w"
proof (rule bit_word_eqI)
  fix n assume n: "n < LENGTH(32)"
  consider "n < 8" | "8 \<le> n" "n < 16" | "16 \<le> n" "n < 24" | "24 \<le> n" "n < 32"
    using n by fastforce
  then show "bit (le32 (byte_of w 0) (byte_of w 1) (byte_of w 2) (byte_of w 3)) n = bit w n"
    by cases (auto simp add: le32_def byte_of_def bit_simps)
qed

lemma read_after_write:
  assumes "write_word k w a = Inr a'"
  shows "read_word k a' = Inr w" and "length a' = length a"
proof -
  from assms have k: "4 * k + 4 \<le> length a"
    and a': "a' = a[4 * k := byte_of w 0, 4 * k + 1 := byte_of w 1,
                    4 * k + 2 := byte_of w 2, 4 * k + 3 := byte_of w 3]"
    by (auto simp add: write_word_def split: if_splits)
  show "length a' = length a"
    by (simp add: a')
  from k show "read_word k a' = Inr w"
    by (simp add: read_word_def a' le32_bytes [unfolded One_nat_def])
qed

lemma read_word_write_other:
  assumes "write_word k w a = Inr a'" and "j \<noteq> k"
  shows "read_word j a' = read_word j a"
proof -
  from assms(1) have k: "4 * k + 4 \<le> length a"
    and a': "a' = a[4 * k := byte_of w 0, 4 * k + 1 := byte_of w 1,
                    4 * k + 2 := byte_of w 2, 4 * k + 3 := byte_of w 3]"
    by (auto simp add: write_word_def split: if_splits)
  have ne: "4 * j + d \<noteq> 4 * k + e" if "d < 4" "e < 4" for d e
    using assms(2) that by presburger
  have "a' ! (4 * j + d) = a ! (4 * j + d)" if "d < 4" for d
    using ne [OF that, of 0] ne [OF that, of 1] ne [OF that, of 2] ne [OF that, of 3]
    by (simp add: a')
  from this [of 0] this [of 1] this [of 2] this [of 3] show ?thesis
    by (simp add: read_word_def a')
qed

lemma memset_zero:
  assumes "memset start 0 n a = Inr a'"
  shows "length a' = length a" and "\<And>i. start \<le> i \<Longrightarrow> i < start + n \<Longrightarrow> a' ! i = 0"
proof -
  from assms have b: "start + n \<le> length a"
    and a': "a' = take start a @ replicate n 0 @ drop (start + n) a"
    by (auto simp add: memset_def split: if_splits)
  from b show "length a' = length a"
    by (simp add: a')
  fix i assume i: "start \<le> i" "i < start + n"
  then have "i - start < n" "\<not> i < start"
    by simp_all
  with b i show "a' ! i = 0"
    by (simp add: a' nth_append)
qed

lemma write_byte_ok:
  "i < length a \<Longrightarrow> \<exists>a'. write_byte i b a = Inr a' \<and> length a' = length a"
  by (simp add: write_byte_def)

lemma install_sym_ok:
  assumes "unat (sym_table_addr hdr) + 4 \<le> length a"
  shows "\<exists>a'. install_sym pf hdr a = Inr a' \<and> length a' = length a"
proof -
  have le: "unat (sym_table_addr hdr + k) \<le> unat (sym_table_addr hdr) + unat k" for k
    by (simp add: unat_word_ariths)
  have i0: "unat (sym_table_addr hdr) < length a"
    using assms by simp
  have i1: "unat (sym_table_addr hdr + 1) < length a"
    using assms le [of 1] by simp
  have i2: "unat (sym_table_addr hdr + 2) < length a"
    using assms le [of 2] by simp
  have i3: "unat (sym_table_addr hdr + 3) < length a"
    using assms le [of 3] by simp
  from i0 i1 i2 i3 show ?thesis
    by (simp add: install_sym_def and_then_def write_byte_def)
qed

text \<open>
  A relocation table of \<open>n\<close> entries at word \<open>got\<close> whose entries all name words before the
  table: the table is inside the arena and no entry is rewritten by the relocation, so
  that the loop stays inside the arena.
\<close>

definition relocs_in_image :: "nat \<Rightarrow> nat \<Rightarrow> u8 list \<Rightarrow> bool" where
  "relocs_in_image got n a =
     (4 * (got + n) \<le> length a \<and>
      list_all (\<lambda>i. case read_word (got + i) a of Inl _ \<Rightarrow> False | Inr r \<Rightarrow> unat (r div 4) < got)
        [0..<n])"

lemma relocate_from_in_image:
  assumes "4 * (got + n) \<le> length a"
    and "\<forall>j. i \<le> j \<and> j < n \<longrightarrow> (\<exists>r. read_word (got + j) a = Inr r \<and> unat (r div 4) < got)"
  shows "\<exists>a'. relocate_from pf got n i a = Inr a' \<and> length a' = length a"
  using assms
proof (induction "n - i" arbitrary: i a)
  case 0
  then have "\<not> i < n" by simp
  then show ?case
    by (subst relocate_from.simps) simp
next
  case (Suc m)
  then have i: "i < n" and m: "m = n - Suc i"
    by simp_all
  with Suc.prems(2) obtain r where r: "read_word (got + i) a = Inr r" "unat (r div 4) < got"
    by blast
  let ?k = "unat (r div 4)"
  have k: "4 * ?k + 4 \<le> length a"
    using r(2) Suc.prems(1) by simp
  then obtain v where v: "read_word ?k a = Inr v"
    by (simp add: read_word_def)
  from k obtain a1 where a1: "write_word ?k (arena_base pf + 4 * (v div 4)) a = Inr a1"
    by (simp add: write_word_def)
  then have l1: "length a1 = length a"
    by (rule read_after_write)
  have e: "relocate_entry pf got i a = Inr a1"
    using r(1) v a1 by (simp add: relocate_entry_def and_then_def)
  have t: "\<forall>j. Suc i \<le> j \<and> j < n \<longrightarrow>
             (\<exists>r. read_word (got + j) a1 = Inr r \<and> unat (r div 4) < got)"
  proof (intro allI impI)
    fix j assume j: "Suc i \<le> j \<and> j < n"
    then have "i \<le> j \<and> j < n"
      by simp
    with Suc.prems(2) obtain rj where rj: "read_word (got + j) a = Inr rj" "unat (rj div 4) < got"
      by blast
    from r(2) have "got + j \<noteq> ?k"
      by simp
    from read_word_write_other [OF a1 this] rj
    show "\<exists>r. read_word (got + j) a1 = Inr r \<and> unat (r div 4) < got"
      by simp
  qed
  from Suc.hyps(1) [OF m _ t] Suc.prems(1) l1 obtain a' where
    "relocate_from pf got n (Suc i) a1 = Inr a'" "length a' = length a1"
    by auto
  with e i l1 show ?case
    by (subst relocate_from.simps) simp
qed

lemma relocate_got_in_image:
  assumes "reloc_entries_count hdr > 0 \<longrightarrow>
      relocs_in_image (unat (app_size hdr div 4)) (unat (reloc_entries_count hdr)) a"
  shows "\<exists>a'. relocate_got pf hdr a = Inr a' \<and> length a' = length a"
proof (cases "reloc_entries_count hdr > 0")
  case False
  then show ?thesis
    by (simp add: relocate_got_def)
next
  case True
  let ?got = "unat (app_size hdr div 4)"
  let ?n = "unat (reloc_entries_count hdr)"
  from True assms have t: "4 * (?got + ?n) \<le> length a"
    and l: "\<forall>j \<in> set [0..<?n].
              case read_word (?got + j) a of Inl _ \<Rightarrow> False | Inr r \<Rightarrow> unat (r div 4) < ?got"
    by (simp_all add: relocs_in_image_def list_all_iff)
  have e: "\<forall>j. 0 \<le> j \<and> j < ?n \<longrightarrow>
              (\<exists>r. read_word (?got + j) a = Inr r \<and> unat (r div 4) < ?got)"
  proof (intro allI impI)
    fix j assume "0 \<le> j \<and> j < ?n"
    then have "j \<in> set [0..<?n]"
      by simp
    with l have "case read_word (?got + j) a of Inl _ \<Rightarrow> False | Inr r \<Rightarrow> unat (r div 4) < ?got"
      by blast
    then show "\<exists>r. read_word (?got + j) a = Inr r \<and> unat (r div 4) < ?got"
      by (cases "read_word (?got + j) a") simp_all
  qed
  from relocate_from_in_image [OF t e, of pf] True show ?thesis
    by (simp add: relocate_got_def)
qed

text \<open>
  A load that stays inside the arena, by what the header and the image say: the image
  with its table fits, the relocation entries name words of the image before the table,
  and the bss and the symbol-table word are inside the arena. Nothing here compares the
  virtual size and the stack with the size of the arena.
\<close>

definition stays_in_arena :: "platform \<Rightarrow> App \<Rightarrow> u8 list \<Rightarrow> bool" where
  "stays_in_arena pf app a =
     (let hdr = flash_load_app_header pf (app_slot_id app) in
      case load_image pf (app_slot_id app) hdr a of
        Inl _ \<Rightarrow> False
      | Inr a1 \<Rightarrow>
          (reloc_entries_count hdr > 0 \<longrightarrow>
             relocs_in_image (unat (app_size hdr div 4)) (unat (reloc_entries_count hdr)) a1) \<and>
          unat (app_size hdr) + unat (virtual_size hdr - app_size hdr) \<le> length a \<and>
          unat (sym_table_addr hdr) + 4 \<le> length a)"

lemma load_image_length:
  assumes "load_image pf slot hdr a = Inr a1"
  shows "length a1 = length a"
  using assms by (auto simp add: load_image_def flash_load_app_def split: if_splits)

lemma zero_bss_ok:
  assumes "unat (app_size hdr) + unat (virtual_size hdr - app_size hdr) \<le> length a"
  shows "\<exists>a'. zero_bss hdr a = Inr a' \<and> length a' = length a"
  using assms by (simp add: zero_bss_def memset_def)

lemma load_app_returns:
  assumes "stays_in_arena pf app (app_stack_heap s)"
  shows "\<exists>s'. load_app pf app s = Inr s'"
proof -
  let ?hdr = "flash_load_app_header pf (app_slot_id app)"
  let ?a = "app_stack_heap s"
  from assms obtain a1 where a1: "load_image pf (app_slot_id app) ?hdr ?a = Inr a1"
    and rl: "reloc_entries_count ?hdr > 0 \<longrightarrow>
             relocs_in_image (unat (app_size ?hdr div 4)) (unat (reloc_entries_count ?hdr)) a1"
    and bs: "unat (app_size ?hdr) + unat (virtual_size ?hdr - app_size ?hdr) \<le> length ?a"
    and sy: "unat (sym_table_addr ?hdr) + 4 \<le> length ?a"
    by (auto simp add: stays_in_arena_def Let_def split: sum.splits)
  have l1: "length a1 = length ?a"
    using a1 by (rule load_image_length)
  from relocate_got_in_image [OF rl, of pf] obtain a2 where
    a2: "relocate_got pf ?hdr a1 = Inr a2" "length a2 = length a1"
    by blast
  from zero_bss_ok [of ?hdr a2] bs l1 a2(2) obtain a3 where
    a3: "zero_bss ?hdr a2 = Inr a3" "length a3 = length a2"
    by auto
  from install_sym_ok [of ?hdr a3 pf] sy l1 a2(2) a3(2) obtain a4 where
    a4: "install_sym pf ?hdr a3 = Inr a4"
    by auto
  from a1 a2(1) a3(1) a4 show ?thesis
    by (simp add: load_app_def Let_def and_then_def emits_def)
qed

lemma load_app_arena:
  assumes "load_app pf app s = Inr s'"
  shows "\<exists>a1 a2 a3.
           load_image pf (app_slot_id app) (flash_load_app_header pf (app_slot_id app))
             (app_stack_heap s) = Inr a1 \<and>
           relocate_got pf (flash_load_app_header pf (app_slot_id app)) a1 = Inr a2 \<and>
           zero_bss (flash_load_app_header pf (app_slot_id app)) a2 = Inr a3 \<and>
           install_sym pf (flash_load_app_header pf (app_slot_id app)) a3 =
             Inr (app_stack_heap s')"
  using assms by (auto simp add: load_app_def Let_def and_then_Inr emits_def)

lemma write_byte_other:
  assumes "write_byte k b a = Inr a'" and "i \<noteq> k"
  shows "a' ! i = a ! i"
  using assms by (auto simp add: write_byte_def split: if_splits)

lemma install_sym_other:
  assumes "install_sym pf hdr a = Inr a'"
    and "i \<notin> set (map (\<lambda>k. unat (sym_table_addr hdr + k)) [0, 1, 2, 3])"
  shows "a' ! i = a ! i"
proof -
  from assms(1) obtain a1 a2 a3 where w:
    "write_byte (unat (sym_table_addr hdr)) (ucast (sym pf AND 0xFF)) a = Inr a1"
    "write_byte (unat (sym_table_addr hdr + 1)) (ucast (drop_bit 8 (sym pf) AND 0xFF)) a1 = Inr a2"
    "write_byte (unat (sym_table_addr hdr + 2)) (ucast (drop_bit 16 (sym pf) AND 0xFF)) a2 = Inr a3"
    "write_byte (unat (sym_table_addr hdr + 3)) (ucast (drop_bit 24 (sym pf) AND 0xFF)) a3 = Inr a'"
    by (auto simp add: install_sym_def and_then_Inr)
  from assms(2) have ne: "i \<noteq> unat (sym_table_addr hdr)" "i \<noteq> unat (sym_table_addr hdr + 1)"
    "i \<noteq> unat (sym_table_addr hdr + 2)" "i \<noteq> unat (sym_table_addr hdr + 3)"
    by simp_all
  from write_byte_other [OF w(1) ne(1)] write_byte_other [OF w(2) ne(2)]
    write_byte_other [OF w(3) ne(3)] write_byte_other [OF w(4) ne(4)]
  show ?thesis
    by simp
qed

lemma zero_bss_zero:
  assumes "zero_bss hdr a = Inr a'" and "unat (app_size hdr) \<le> i" and "i < unat (virtual_size hdr)"
  shows "a' ! i = 0"
proof -
  from assms(2,3) have le: "app_size hdr \<le> virtual_size hdr"
    by (simp add: word_le_nat_alt)
  then have "unat (virtual_size hdr - app_size hdr) = unat (virtual_size hdr) - unat (app_size hdr)"
    by (rule unat_sub)
  with assms(2,3) have "i < unat (app_size hdr) + unat (virtual_size hdr - app_size hdr)"
    by simp
  with assms(1,2) show ?thesis
    unfolding zero_bss_def using memset_zero(2) by blast
qed

lemma load_app_result:
  assumes "load_app pf app s = Inr s'"
  shows "app_task_handle s' = Some (dynapp_task pf (flash_load_app_header pf (app_slot_id app)))"
    and "\<exists>es. trace s' = trace s @ es @
           [AppHeapInit (heap_size pf (flash_load_app_header pf (app_slot_id app)))
              (arena_base pf + virtual_size (flash_load_app_header pf (app_slot_id app))),
            TaskCreateStatic (dynapp_task pf (flash_load_app_header pf (app_slot_id app)))]"
proof -
  from assms show "app_task_handle s' =
      Some (dynapp_task pf (flash_load_app_header pf (app_slot_id app)))"
    by (rule load_app_state)
  let ?hdr = "flash_load_app_header pf (app_slot_id app)"
  from assms obtain a4 where "s' =
     (emits (app_signature_log ?hdr @
                 [KERN_LOG ''app'' APP_LOG_LEVEL_DEBUG ''Base %x heap %x sz %d stack %x sz %d''
                    [Num (unat (arena_base pf)), Num (unat (arena_base pf + virtual_size ?hdr)),
                     Num (unat (heap_size pf ?hdr)),
                     Num (unat (arena_base pf +
                        4 * (MAX_APP_MEMORY_SIZE pf div 4 - MAX_APP_STACK_SIZE pf))),
                     Num (unat (MAX_APP_STACK_SIZE pf))],
                  AppHeapInit (heap_size pf ?hdr) (arena_base pf + virtual_size ?hdr),
                  TaskCreateStatic (dynapp_task pf ?hdr)])
        ((emits [Flash_load_app_header (app_slot_id app),
                 Flash_load_app (app_slot_id app)
                   (app_size ?hdr + reloc_entries_count ?hdr * 4)] s)
           \<lparr>app_stack_heap := a4\<rparr>))\<lparr>app_task_handle := Some (dynapp_task pf ?hdr)\<rparr>"
    by (auto simp add: load_app_def Let_def and_then_Inr)
  then have "trace s' = trace s @
      ([Flash_load_app_header (app_slot_id app),
        Flash_load_app (app_slot_id app) (app_size ?hdr + reloc_entries_count ?hdr * 4)] @
       app_signature_log ?hdr @
       [KERN_LOG ''app'' APP_LOG_LEVEL_DEBUG ''Base %x heap %x sz %d stack %x sz %d''
                    [Num (unat (arena_base pf)), Num (unat (arena_base pf + virtual_size ?hdr)),
                     Num (unat (heap_size pf ?hdr)),
                     Num (unat (arena_base pf +
                        4 * (MAX_APP_MEMORY_SIZE pf div 4 - MAX_APP_STACK_SIZE pf))),
                     Num (unat (MAX_APP_STACK_SIZE pf))]]) @
       [AppHeapInit (heap_size pf ?hdr) (arena_base pf + virtual_size ?hdr),
        TaskCreateStatic (dynapp_task pf ?hdr)]"
    by (simp add: emits_def)
  then show "\<exists>es. trace s' = trace s @ es @
           [AppHeapInit (heap_size pf ?hdr) (arena_base pf + virtual_size ?hdr),
            TaskCreateStatic (dynapp_task pf ?hdr)]"
    by (rule exI)
qed

text \<open>The loader stops in no other way than by an access outside the arena.\<close>

lemma and_then_Inl:
  "(and_then r f = Inl e) = (r = Inl e \<or> (\<exists>x. r = Inr x \<and> f x = Inl e))"
  by (cases r) (simp_all add: and_then_def)

lemma read_word_fault: "read_word k a = Inl f \<Longrightarrow> f = Out_of_arena"
  by (simp add: read_word_def split: if_splits)

lemma write_word_fault: "write_word k w a = Inl f \<Longrightarrow> f = Out_of_arena"
  by (simp add: write_word_def split: if_splits)

lemma write_byte_fault: "write_byte k b a = Inl f \<Longrightarrow> f = Out_of_arena"
  by (simp add: write_byte_def split: if_splits)

lemma relocate_entry_fault: "relocate_entry pf got i a = Inl f \<Longrightarrow> f = Out_of_arena"
  by (auto simp add: relocate_entry_def and_then_Inl dest: read_word_fault write_word_fault)

lemma relocate_from_fault: "relocate_from pf got n i a = Inl f \<Longrightarrow> f = Out_of_arena"
proof (induction pf got n i a rule: relocate_from.induct)
  case (1 pf got count i a)
  show ?case
  proof (cases "i < count")
    case False
    with "1.prems" show ?thesis
      by (subst (asm) relocate_from.simps) simp
  next
    case True
    show ?thesis
    proof (cases "relocate_entry pf got i a")
      case (Inl e)
      with True "1.prems" have "f = e"
        by (subst (asm) relocate_from.simps) simp
      with Inl show ?thesis
        by (simp add: relocate_entry_fault)
    next
      case (Inr a')
      with True "1.prems" have "relocate_from pf got count (Suc i) a' = Inl f"
        by (subst (asm) relocate_from.simps) simp
      with "1.IH" [OF True Inr] show ?thesis
        by simp
    qed
  qed
qed

lemma load_app_fault:
  assumes "load_app pf app s = Inl f"
  shows "f = Out_of_arena"
proof -
  have i: "load_image pf slot hdr a = Inl f \<Longrightarrow> f = Out_of_arena" for slot hdr a
    by (simp add: load_image_def flash_load_app_def split: if_splits)
  have r: "relocate_got pf hdr a = Inl f \<Longrightarrow> f = Out_of_arena" for hdr a
    by (auto simp add: relocate_got_def split: if_splits dest: relocate_from_fault)
  have z: "zero_bss hdr a = Inl f \<Longrightarrow> f = Out_of_arena" for hdr a
    by (simp add: zero_bss_def memset_def split: if_splits)
  have y: "install_sym pf hdr a = Inl f \<Longrightarrow> f = Out_of_arena" for hdr a
    by (auto simp add: install_sym_def and_then_Inl dest: write_byte_fault)
  from assms show ?thesis
    by (auto simp add: load_app_def Let_def and_then_Inl dest: i r z y)
qed

subsection \<open>States and images for concrete runs\<close>

text \<open>
  A state after initialisation in which the manifest holds the built-in System and an
  application found in flash slot 7, with the given start requests waiting.
\<close>

definition loader_state :: "AppMessage list \<Rightarrow> am_state" where
  "loader_state requests =
     \<lparr>heap = [1 \<mapsto> (builtin_app ''System'' APP_TYPE_SYSTEM systemapp_main)\<lparr>app_next := Some 3\<rparr>,
              3 \<mapsto> (face ''TestApp'' None)\<lparr>app_slot_id := 7\<rparr>],
      brk = 5, allocs = [], app_manifest_head = Some 1, running_app = None,
      app_task_handle = None, app_thread_manager_task_handle = Some manager_task,
      app_message_queue = \<lparr>q_length = 5, q_items = []\<rparr>,
      app_thread_queue = \<lparr>q_length = 1, q_items = requests\<rparr>,
      app_stack_heap = replicate 64 0xAA, trace = []\<rparr>"

lemma loader_state_manifest:
  "manifest (heap (loader_state rq)) (app_manifest_head (loader_state rq)) [1, 3]"
  by (simp add: loader_state_def builtin_app_def face_def)

text \<open>A flash whose slot 7 holds an application without relocation entries.\<close>

definition relocation_platform :: platform where
  "relocation_platform =
     test_platform (\<lambda>slot. if slot = 7 then test_header ''TestApp'' 16 8 4 0 24 else blank_header)
       (\<lambda>slot k. of_nat k)"

text \<open>
  An image of 16 bytes followed by a relocation table of two entries, which name the
  words at the offsets 8 and 12; these hold 12 and 6. Its header asks for a virtual size
  of 40 bytes, in an arena of 64 bytes with a stack of 8 words. It is in flash slot 7.
\<close>

definition got_image :: "u8 list" where
  "got_image = [0, 0, 0, 0,  0, 0, 0, 0,  12, 0, 0, 0,  6, 0, 0, 0,  8, 0, 0, 0,  12, 0, 0, 0]"

definition got_platform :: platform where
  "got_platform =
     test_platform (\<lambda>slot. if slot = 7 then test_header ''TestApp'' 16 8 4 2 40 else blank_header)
       (\<lambda>slot k. if k < 24 then got_image ! k else 0)"

definition got_app :: App where
  "got_app = (face ''TestApp'' None)\<lparr>app_slot_id := 7\<rparr>"

lemma got_app_header:
  "flash_load_app_header got_platform (app_slot_id got_app) = test_header ''TestApp'' 16 8 4 2 40"
  by (simp add: got_platform_def test_platform_def got_app_def)

lemma got_load_image:
  "load_image got_platform 7 (test_header ''TestApp'' 16 8 4 2 40) (replicate 64 0xAA) =
     Inr (got_image @ replicate 40 0xAA)"
proof -
  have l: "length got_image = 24"
    by (simp add: got_image_def)
  have "map (\<lambda>k. if k < 24 then got_image ! k else 0) [0..<24] = map ((!) got_image) [0..<24]"
    by (rule map_cong) simp_all
  also have "\<dots> = got_image"
    using map_nth [of got_image] unfolding l .
  finally show ?thesis
    by (simp add: load_image_def flash_load_app_def test_header_def got_platform_def
        test_platform_def)
qed

lemma got_relocate:
  "relocate_got got_platform (test_header ''TestApp'' 16 8 4 2 40)
     (got_image @ replicate 40 0xAA) =
     Inr ([0, 0, 0, 0,  0, 0, 0, 0,  0x0C, 0, 0, 0x20,  4, 0, 0, 0x20,  8, 0, 0, 0,  12, 0, 0, 0]
          @ replicate 40 0xAA)"
  by (simp add: relocate_got_def relocate_from.simps relocate_entry_def and_then_def
      read_word_def write_word_def le32_def byte_of_def got_image_def
      test_header_def got_platform_def test_platform_def nth_append list_update_append)


lemma got_zero_bss:
  "zero_bss (test_header ''TestApp'' 16 8 4 2 40)
     ([0, 0, 0, 0,  0, 0, 0, 0,  0x0C, 0, 0, 0x20,  4, 0, 0, 0x20,  8, 0, 0, 0,  12, 0, 0, 0]
      @ replicate 40 0xAA) =
     Inr ([0, 0, 0, 0,  0, 0, 0, 0,  0x0C, 0, 0, 0x20,  4, 0, 0, 0x20] @ replicate 24 0
          @ replicate 24 0xAA)"
  by (simp add: zero_bss_def memset_def test_header_def)

lemma got_install_sym:
  "install_sym got_platform (test_header ''TestApp'' 16 8 4 2 40)
     ([0, 0, 0, 0,  0, 0, 0, 0,  0x0C, 0, 0, 0x20,  4, 0, 0, 0x20] @ replicate 24 0
      @ replicate 24 0xAA) =
     Inr ([0, 0, 0, 0,  0, 0x40, 0, 8,  0x0C, 0, 0, 0x20,  4, 0, 0, 0x20] @ replicate 24 0
          @ replicate 24 0xAA)"
  by (simp add: install_sym_def and_then_def write_byte_def test_header_def got_platform_def
      test_platform_def)

lemma got_stays_in_arena: "stays_in_arena got_platform got_app (replicate 64 0xAA)"
proof -
  have s: "app_slot_id got_app = 7"
    by (simp add: got_app_def)
  have u: "[0..<2] = [0, 1 :: nat]"
    by code_simp
  have r: "relocs_in_image 4 2 (got_image @ replicate 40 0xAA)"
    unfolding relocs_in_image_def u
    by (simp add: read_word_def le32_def got_image_def nth_append)
  have c: "unat (app_size (test_header ''TestApp'' 16 8 4 2 40) div 4) = 4"
    "unat (reloc_entries_count (test_header ''TestApp'' 16 8 4 2 40)) = 2"
    by (simp_all add: test_header_def)
  have b: "unat (app_size (test_header ''TestApp'' 16 8 4 2 40)) +
      unat (virtual_size (test_header ''TestApp'' 16 8 4 2 40)
            - app_size (test_header ''TestApp'' 16 8 4 2 40)) \<le> length (replicate 64 (0xAA::u8))"
    "unat (sym_table_addr (test_header ''TestApp'' 16 8 4 2 40)) + 4
       \<le> length (replicate 64 (0xAA::u8))"
    by (simp_all add: test_header_def)
  have "stays_in_arena got_platform got_app (replicate 64 0xAA) =
      ((reloc_entries_count (test_header ''TestApp'' 16 8 4 2 40) > 0 \<longrightarrow>
         relocs_in_image 4 2 (got_image @ replicate 40 0xAA)) \<and>
       unat (app_size (test_header ''TestApp'' 16 8 4 2 40)) +
         unat (virtual_size (test_header ''TestApp'' 16 8 4 2 40)
            - app_size (test_header ''TestApp'' 16 8 4 2 40)) \<le> length (replicate 64 (0xAA::u8)) \<and>
       unat (sym_table_addr (test_header ''TestApp'' 16 8 4 2 40)) + 4
         \<le> length (replicate 64 (0xAA::u8)))"
    unfolding stays_in_arena_def Let_def got_app_header
    by (simp only: s got_load_image c sum.case)
  with r b show ?thesis
    by (simp only: simp_thms)
qed

subsection \<open>Zeroing the bss\<close>

text \<open>
  Claim C6. A load of a non-internal application that stays inside the arena returns. And
  every load that returns has copied the image (\<open>a1\<close>), relocated the GOT (\<open>a2\<close>) and then
  run \<^verbatim>\<open>memset(&byte_buf[app_size], 0, virtual_size - app_size)\<close> on the arena the relocation
  left: in the arena \<open>a3\<close> after this step every byte at an offset in
  \<open>[app_size, virtual_size)\<close> is zero. The arena the load leaves is \<open>a3\<close> with the address of
  the symbol table written into it, so that there too every byte of that range is zero
  but for the four bytes of that address, should they lie in the range.
\<close>

theorem bss_zero_after_relocation:
  "(stays_in_arena pf app (app_stack_heap s) \<longrightarrow> (\<exists>s'. load_app pf app s = Inr s')) \<and>
   (\<forall>s'. load_app pf app s = Inr s' \<longrightarrow>
      (\<exists>a1 a2 a3.
         load_image pf (app_slot_id app) (flash_load_app_header pf (app_slot_id app))
           (app_stack_heap s) = Inr a1 \<and>
         relocate_got pf (flash_load_app_header pf (app_slot_id app)) a1 = Inr a2 \<and>
         zero_bss (flash_load_app_header pf (app_slot_id app)) a2 = Inr a3 \<and>
         (\<forall>i. unat (app_size (flash_load_app_header pf (app_slot_id app))) \<le> i \<and>
              i < unat (virtual_size (flash_load_app_header pf (app_slot_id app)))
              \<longrightarrow> a3 ! i = 0) \<and>
         install_sym pf (flash_load_app_header pf (app_slot_id app)) a3 =
           Inr (app_stack_heap s') \<and>
         (\<forall>i. unat (app_size (flash_load_app_header pf (app_slot_id app))) \<le> i \<and>
              i < unat (virtual_size (flash_load_app_header pf (app_slot_id app))) \<and>
              i \<notin> set (map (\<lambda>k. unat (sym_table_addr
                              (flash_load_app_header pf (app_slot_id app)) + k)) [0, 1, 2, 3])
              \<longrightarrow> app_stack_heap s' ! i = 0)))"
proof (intro conjI allI impI)
  assume "stays_in_arena pf app (app_stack_heap s)"
  then show "\<exists>s'. load_app pf app s = Inr s'"
    by (rule load_app_returns)
next
  fix s' assume "load_app pf app s = Inr s'"
  let ?hdr = "flash_load_app_header pf (app_slot_id app)"
  from load_app_arena [OF \<open>load_app pf app s = Inr s'\<close>] obtain a1 a2 a3 where a:
    "load_image pf (app_slot_id app) ?hdr (app_stack_heap s) = Inr a1"
    "relocate_got pf ?hdr a1 = Inr a2" "zero_bss ?hdr a2 = Inr a3"
    "install_sym pf ?hdr a3 = Inr (app_stack_heap s')"
    by blast
  have z: "\<forall>i. unat (app_size ?hdr) \<le> i \<and> i < unat (virtual_size ?hdr) \<longrightarrow> a3 ! i = 0"
    using zero_bss_zero [OF a(3)] by blast
  have z': "\<forall>i. unat (app_size ?hdr) \<le> i \<and> i < unat (virtual_size ?hdr) \<and>
              i \<notin> set (map (\<lambda>k. unat (sym_table_addr ?hdr + k)) [0, 1, 2, 3])
              \<longrightarrow> app_stack_heap s' ! i = 0"
    using z install_sym_other [OF a(4)] by metis
  show "\<exists>a1 a2 a3.
         load_image pf (app_slot_id app) ?hdr (app_stack_heap s) = Inr a1 \<and>
         relocate_got pf ?hdr a1 = Inr a2 \<and> zero_bss ?hdr a2 = Inr a3 \<and>
         (\<forall>i. unat (app_size ?hdr) \<le> i \<and> i < unat (virtual_size ?hdr) \<longrightarrow> a3 ! i = 0) \<and>
         install_sym pf ?hdr a3 = Inr (app_stack_heap s') \<and>
         (\<forall>i. unat (app_size ?hdr) \<le> i \<and> i < unat (virtual_size ?hdr) \<and>
              i \<notin> set (map (\<lambda>k. unat (sym_table_addr ?hdr + k)) [0, 1, 2, 3])
              \<longrightarrow> app_stack_heap s' ! i = 0)"
    by (rule exI [of _ a1], rule exI [of _ a2], rule exI [of _ a3], intro conjI)
      (fact a z z')+
qed

text \<open>
  The image with the relocation table, loaded over an arena filled with \<^verbatim>\<open>0xAA\<close>: the bytes
  16 to 39, which held the table and \<^verbatim>\<open>0xAA\<close>, are zero after the load.
\<close>

theorem bss_zero_after_relocation_witness:
  "stays_in_arena got_platform got_app (app_stack_heap (loader_state [])) \<and>
   (\<exists>s'. load_app got_platform got_app (loader_state []) = Inr s' \<and>
      app_stack_heap s' =
        [0, 0, 0, 0,  0, 0x40, 0, 8,  0x0C, 0, 0, 0x20,  4, 0, 0, 0x20] @ replicate 24 0
        @ replicate 24 0xAA)"
proof -
  let ?s = "loader_state []"
  let ?hdr = "test_header ''TestApp'' 16 8 4 2 40"
  have a: "app_stack_heap ?s = replicate 64 0xAA"
    by (simp add: loader_state_def)
  have st: "stays_in_arena got_platform got_app (app_stack_heap ?s)"
    unfolding a by (rule got_stays_in_arena)
  have s7: "app_slot_id got_app = 7"
    by (simp add: got_app_def)
  note t = bss_zero_after_relocation [of got_platform got_app ?s]
  from t st obtain s' where s': "load_app got_platform got_app ?s = Inr s'"
    by blast
  with t obtain a1 a2 a3 where c:
    "load_image got_platform (app_slot_id got_app)
       (flash_load_app_header got_platform (app_slot_id got_app)) (app_stack_heap ?s) = Inr a1"
    "relocate_got got_platform (flash_load_app_header got_platform (app_slot_id got_app)) a1
       = Inr a2"
    "zero_bss (flash_load_app_header got_platform (app_slot_id got_app)) a2 = Inr a3"
    "install_sym got_platform (flash_load_app_header got_platform (app_slot_id got_app)) a3 =
       Inr (app_stack_heap s')"
    by blast
  from c(1) have a1: "a1 = got_image @ replicate 40 0xAA"
    unfolding got_app_header a unfolding s7 got_load_image by simp
  from c(2) have a2: "a2 = [0, 0, 0, 0,  0, 0, 0, 0,  0x0C, 0, 0, 0x20,  4, 0, 0, 0x20,
      8, 0, 0, 0,  12, 0, 0, 0] @ replicate 40 0xAA"
    unfolding got_app_header a1 got_relocate by simp
  from c(3) have a3: "a3 = [0, 0, 0, 0,  0, 0, 0, 0,  0x0C, 0, 0, 0x20,  4, 0, 0, 0x20]
      @ replicate 24 0 @ replicate 24 0xAA"
    unfolding got_app_header a2 got_zero_bss by simp
  from c(4) have "app_stack_heap s' =
        [0, 0, 0, 0,  0, 0x40, 0, 8,  0x0C, 0, 0, 0x20,  4, 0, 0, 0x20] @ replicate 24 0
        @ replicate 24 0xAA"
    unfolding got_app_header a3 got_install_sym by simp
  with st s' show ?thesis
    by blast
qed

subsection \<open>Relocating the GOT\<close>

text \<open>
  Claim C3 against the code. The image is copied from flash; its table holds the entries 8
  and 12. The word at offset 8 holds 12 and is rewritten to \<open>arena_base + 12\<close>, as the claim
  says. The word at offset 12 holds 6 and is rewritten to \<open>arena_base + 4\<close>, not to
  \<open>arena_base + 6\<close>: \<^verbatim>\<open>existing /= 4\<close> followed by the addition to the word pointer
  \<^verbatim>\<open>word_buf\<close> drops the two low bits of the stored offset.
\<close>

theorem relocation_truncates_unaligned_offset:
  "load_image got_platform 7 (flash_load_app_header got_platform 7) (replicate 64 0xAA) =
     Inr (got_image @ replicate 40 0xAA) \<and>
   read_word 4 (got_image @ replicate 40 0xAA) = Inr 8 \<and>
   read_word 2 (got_image @ replicate 40 0xAA) = Inr 12 \<and>
   read_word 5 (got_image @ replicate 40 0xAA) = Inr 12 \<and>
   read_word 3 (got_image @ replicate 40 0xAA) = Inr 6 \<and>
   and_then (relocate_got got_platform (flash_load_app_header got_platform 7)
               (got_image @ replicate 40 0xAA)) (read_word 2) = Inr 0x2000000C \<and>
   and_then (relocate_got got_platform (flash_load_app_header got_platform 7)
               (got_image @ replicate 40 0xAA)) (read_word 3) = Inr 0x20000004 \<and>
   arena_base got_platform + 12 = 0x2000000C \<and>
   arena_base got_platform + 6 = 0x20000006"
proof -
  have h: "flash_load_app_header got_platform 7 = test_header ''TestApp'' 16 8 4 2 40"
    by (simp add: got_platform_def test_platform_def)
  have r: "read_word 4 (got_image @ replicate 40 0xAA) = Inr 8"
    "read_word 2 (got_image @ replicate 40 0xAA) = Inr 12"
    "read_word 5 (got_image @ replicate 40 0xAA) = Inr 12"
    "read_word 3 (got_image @ replicate 40 0xAA) = Inr 6"
    by (simp_all add: read_word_def le32_def got_image_def nth_append)
  have w: "read_word 2 ([0, 0, 0, 0,  0, 0, 0, 0,  0x0C, 0, 0, 0x20,  4, 0, 0, 0x20,
        8, 0, 0, 0,  12, 0, 0, 0] @ replicate 40 0xAA) = Inr 0x2000000C"
    "read_word 3 ([0, 0, 0, 0,  0, 0, 0, 0,  0x0C, 0, 0, 0x20,  4, 0, 0, 0x20,
        8, 0, 0, 0,  12, 0, 0, 0] @ replicate 40 0xAA) = Inr 0x20000004"
    by (simp_all add: read_word_def le32_def nth_append)
  have b: "arena_base got_platform + 12 = 0x2000000C" "arena_base got_platform + 6 = 0x20000006"
    by (simp_all add: got_platform_def test_platform_def)
  show ?thesis
    unfolding h got_load_image got_relocate using r w b by (simp add: and_then_def)
qed

subsection \<open>Loading an application that does not fit\<close>

text \<open>
  The state in which the manager thread loads or spawns the record \<open>p\<close> it found for the
  name \<open>nm\<close>: the message queue reset, \<^verbatim>\<open>_running_app\<close> set, the previous task deleted.
\<close>

definition ready_to_spawn :: "string \<Rightarrow> addr \<Rightarrow> am_state \<Rightarrow> am_state" where
  "ready_to_spawn nm p s =
     (let s3 = (emits [KERN_LOG ''app'' APP_LOG_LEVEL_INFO ''Starting app %s'' [Str (cstr nm)],
                       QueueReset Message_queue]
                  (s\<lparr>app_message_queue := xQueueReset (app_message_queue s)\<rparr>))
                \<lparr>running_app := Some p\<rparr>
      in if app_task_handle s3 \<noteq> None then emit (TaskDelete (app_task_handle s3)) s3 else s3)"

lemma thread_body_found:
  assumes "manifest (heap s) (app_manifest_head s) as"
    and "List.find (name_matches (heap s) nm) as = Some p" and "heap s p = Some rec"
    and "payload am = Name_payload nm"
  shows "app_thread_body pf am s =
     (if \<not> app_is_internal rec then
        (case load_app pf rec (ready_to_spawn nm p s) of
           Inl f \<Rightarrow> Some (Some (Faulted f), ready_to_spawn nm p s)
         | Inr s5 \<Rightarrow> Some (None, s5))
      else Some (None, spawn_internal pf rec (ready_to_spawn nm p s)))"
proof -
  let ?s1 = "emits [KERN_LOG ''app'' APP_LOG_LEVEL_INFO ''Starting app %s'' [Str (cstr nm)],
                    QueueReset Message_queue]
               (s\<lparr>app_message_queue := xQueueReset (app_message_queue s)\<rparr>)"
  have h1: "heap ?s1 = heap s" "app_manifest_head ?s1 = app_manifest_head s"
    by (simp_all add: emits_def)
  from assms(2) have "as \<noteq> []"
    by auto
  with assms(1) obtain a where hd: "app_manifest_head s = Some a"
    by (cases as) simp_all
  have "find_app (heap ?s1) nm (app_manifest_head ?s1) = Some (Some p)"
    using find_app_manifest [OF assms(1), of nm] assms(2) by (simp add: h1)
  then have g: "appmanager_get_app nm ?s1 = Some (Some p, ?s1)"
    by (simp add: appmanager_get_app_def)
  from hd g assms(3,4) show ?thesis
    unfolding app_thread_body_def ready_to_spawn_def Let_def payload_name_def
    by (simp add: h1)
qed

lemma thread_body_not_found:
  assumes "manifest (heap s) (app_manifest_head s) as" and "as \<noteq> []"
    and "List.find (name_matches (heap s) nm) as = None"
    and "payload am = Name_payload nm"
  shows "app_thread_body pf am s =
     Some (Some Returned,
           emits [KERN_LOG ''app'' APP_LOG_LEVEL_INFO ''Starting app %s'' [Str (cstr nm)],
                  QueueReset Message_queue,
                  KERN_LOG ''app'' APP_LOG_LEVEL_ERROR ''NO App Found %s'' [Str (cstr nm)]]
             (s\<lparr>app_message_queue := xQueueReset (app_message_queue s)\<rparr>))"
proof -
  let ?s1 = "emits [KERN_LOG ''app'' APP_LOG_LEVEL_INFO ''Starting app %s'' [Str (cstr nm)],
                    QueueReset Message_queue]
               (s\<lparr>app_message_queue := xQueueReset (app_message_queue s)\<rparr>)"
  have h1: "heap ?s1 = heap s" "app_manifest_head ?s1 = app_manifest_head s"
    by (simp_all add: emits_def)
  from assms(1,2) obtain a where hd: "app_manifest_head s = Some a"
    by (cases as) simp_all
  have "find_app (heap ?s1) nm (app_manifest_head ?s1) = Some None"
    using find_app_manifest [OF assms(1), of nm] assms(3) by (simp add: h1)
  then have g: "appmanager_get_app nm ?s1 =
      Some (None, emit (KERN_LOG ''app'' APP_LOG_LEVEL_ERROR ''NO App Found %s'' [Str (cstr nm)]) ?s1)"
    by (simp add: appmanager_get_app_def)
  have e: "emit (KERN_LOG ''app'' APP_LOG_LEVEL_ERROR ''NO App Found %s'' [Str (cstr nm)]) ?s1 =
      emits [KERN_LOG ''app'' APP_LOG_LEVEL_INFO ''Starting app %s'' [Str (cstr nm)],
             QueueReset Message_queue,
             KERN_LOG ''app'' APP_LOG_LEVEL_ERROR ''NO App Found %s'' [Str (cstr nm)]]
        (s\<lparr>app_message_queue := xQueueReset (app_message_queue s)\<rparr>)"
    by (simp add: emits_def emit_def)
  from hd g assms(4) have "app_thread_body pf am s = Some (Some Returned,
      emit (KERN_LOG ''app'' APP_LOG_LEVEL_ERROR ''NO App Found %s'' [Str (cstr nm)]) ?s1)"
    by (simp add: app_thread_body_def payload_name_def Let_def h1)
  then show ?thesis
    by (simp only: e)
qed

lemma ready_to_spawn_state:
  "heap (ready_to_spawn nm p s) = heap s" "running_app (ready_to_spawn nm p s) = Some p"
  "app_stack_heap (ready_to_spawn nm p s) = app_stack_heap s"
  "app_thread_queue (ready_to_spawn nm p s) = app_thread_queue s"
  "\<exists>es. trace (ready_to_spawn nm p s) = trace s @ es"
  by (simp_all add: ready_to_spawn_def Let_def emits_def emit_def)

lemma thread_empty_queue:
  "q_items (app_thread_queue s) = [] \<Longrightarrow> appmanager_app_thread pf s = Some (Waiting, s)"
  by (subst appmanager_app_thread.simps) simp

lemma thread_loads:
  assumes "manifest (heap s) (app_manifest_head s) as"
    and "q_items (app_thread_queue s) = am # rest" and "payload am = Name_payload nm"
    and "List.find (name_matches (heap s) nm) as = Some p" and "heap s p = Some rec"
    and "\<not> app_is_internal rec"
    and "load_app pf rec (ready_to_spawn nm p
           (s\<lparr>app_thread_queue := (app_thread_queue s)\<lparr>q_items := rest\<rparr>\<rparr>)) = Inr s'"
  shows "appmanager_app_thread pf s = appmanager_app_thread pf s'"
    and "q_items (app_thread_queue s') = rest" and "running_app s' = Some p"
    and "app_task_handle s' = Some (dynapp_task pf (flash_load_app_header pf (app_slot_id rec)))"
    and "\<exists>es. trace s' = trace s @ es @
           [AppHeapInit (heap_size pf (flash_load_app_header pf (app_slot_id rec)))
              (arena_base pf + virtual_size (flash_load_app_header pf (app_slot_id rec))),
            TaskCreateStatic (dynapp_task pf (flash_load_app_header pf (app_slot_id rec)))]"
proof -
  let ?st = "s\<lparr>app_thread_queue := (app_thread_queue s)\<lparr>q_items := rest\<rparr>\<rparr>"
  let ?r = "ready_to_spawn nm p ?st"
  let ?hdr = "flash_load_app_header pf (app_slot_id rec)"
  have m: "manifest (heap ?st) (app_manifest_head ?st) as"
    "List.find (name_matches (heap ?st) nm) as = Some p" "heap ?st p = Some rec"
    using assms(1,4,5) by simp_all
  from thread_body_found [OF m assms(3), of pf] assms(6,7)
  have body: "app_thread_body pf am ?st = Some (None, s')"
    by simp
  show "appmanager_app_thread pf s = appmanager_app_thread pf s'"
    using assms(2) body by (subst appmanager_app_thread.simps) simp
  have "app_thread_queue s' = app_thread_queue ?st"
    using body by (rule thread_body_queue)
  then show "q_items (app_thread_queue s') = rest"
    by simp
  show "running_app s' = Some p"
    using load_app_state(5) [OF assms(7)] by (simp add: ready_to_spawn_state)
  show "app_task_handle s' = Some (dynapp_task pf ?hdr)"
    using assms(7) by (rule load_app_result)
  obtain es0 where es0: "trace ?r = trace s @ es0"
    using ready_to_spawn_state(5) [of nm p ?st] by auto
  from load_app_result(2) [OF assms(7)] obtain es1 where
    "trace s' = trace ?r @ es1 @
       [AppHeapInit (heap_size pf ?hdr) (arena_base pf + virtual_size ?hdr),
        TaskCreateStatic (dynapp_task pf ?hdr)]"
    by blast
  then have "trace s' = trace s @ (es0 @ es1) @
       [AppHeapInit (heap_size pf ?hdr) (arena_base pf + virtual_size ?hdr),
        TaskCreateStatic (dynapp_task pf ?hdr)]"
    by (simp add: es0)
  then show "\<exists>es. trace s' = trace s @ es @
       [AppHeapInit (heap_size pf ?hdr) (arena_base pf + virtual_size ?hdr),
        TaskCreateStatic (dynapp_task pf ?hdr)]"
    by (rule exI)
qed

lemma thread_faults:
  assumes "manifest (heap s) (app_manifest_head s) as"
    and "q_items (app_thread_queue s) = am # rest" and "payload am = Name_payload nm"
    and "List.find (name_matches (heap s) nm) as = Some p" and "heap s p = Some rec"
    and "\<not> app_is_internal rec"
    and "load_app pf rec (ready_to_spawn nm p
           (s\<lparr>app_thread_queue := (app_thread_queue s)\<lparr>q_items := rest\<rparr>\<rparr>)) = Inl f"
  shows "appmanager_app_thread pf s =
     Some (Faulted Out_of_arena,
           ready_to_spawn nm p (s\<lparr>app_thread_queue := (app_thread_queue s)\<lparr>q_items := rest\<rparr>\<rparr>))"
proof -
  let ?st = "s\<lparr>app_thread_queue := (app_thread_queue s)\<lparr>q_items := rest\<rparr>\<rparr>"
  have m: "manifest (heap ?st) (app_manifest_head ?st) as"
    "List.find (name_matches (heap ?st) nm) as = Some p" "heap ?st p = Some rec"
    using assms(1,4,5) by simp_all
  have f: "f = Out_of_arena"
    using assms(7) by (rule load_app_fault)
  from thread_body_found [OF m assms(3), of pf] assms(6,7)
  have "app_thread_body pf am ?st = Some (Some (Faulted Out_of_arena), ready_to_spawn nm p ?st)"
    by (simp add: f)
  with assms(2) show ?thesis
    by (subst appmanager_app_thread.simps) simp
qed

text \<open>
  Claim C1, as the code has it. The loader compares no size with the arena: there is no
  \<^verbatim>\<open>size_overflow\<close> and no \<^verbatim>\<open>no_heap\<close> failure. When the manager thread takes a start request
  that names a non-internal record, one of two things happens, whatever
  \<^verbatim>\<open>MAX_APP_STACK_SIZE\<close> is. Either the load is carried through: the record is the running
  application, \<^verbatim>\<open>appHeapInit\<close> was called with the size
  \<^verbatim>\<open>MAX_APP_MEMORY_SIZE - virtual_size - MAX_APP_STACK_SIZE * 4\<close> computed in 32 bits (so
  wrapped around when the sum exceeds the arena), the application task was created last
  and \<^verbatim>\<open>_app_task_handle\<close> holds it, and the thread goes round its loop again with the
  requests that are left (with none left it waits in \<^verbatim>\<open>xQueueReceive\<close>). Or an access of the
  load leaves the arena, which is undefined in C; this does not happen to a load that
  stays inside the arena in the sense above.
\<close>

theorem load_app_makes_no_size_check:
  assumes "manifest (heap s) (app_manifest_head s) as"
    and "q_items (app_thread_queue s) = am # rest" and "payload am = Name_payload nm"
    and "List.find (name_matches (heap s) nm) as = Some p" and "heap s p = Some rec"
    and "\<not> app_is_internal rec"
  shows "(\<exists>s'. appmanager_app_thread pf s = appmanager_app_thread pf s' \<and>
           (rest = [] \<longrightarrow> appmanager_app_thread pf s = Some (Waiting, s')) \<and>
           q_items (app_thread_queue s') = rest \<and> running_app s' = Some p \<and>
           app_task_handle s' =
             Some (dynapp_task pf (flash_load_app_header pf (app_slot_id rec))) \<and>
           (\<exists>es. trace s' = trace s @ es @
              [AppHeapInit
                 (MAX_APP_MEMORY_SIZE pf
                    - virtual_size (flash_load_app_header pf (app_slot_id rec))
                    - MAX_APP_STACK_SIZE pf * 4)
                 (arena_base pf + virtual_size (flash_load_app_header pf (app_slot_id rec))),
               TaskCreateStatic (dynapp_task pf (flash_load_app_header pf (app_slot_id rec)))]))
         \<or> (\<not> stays_in_arena pf rec (app_stack_heap s) \<and>
            (\<exists>s'. appmanager_app_thread pf s = Some (Faulted Out_of_arena, s')))"
proof -
  let ?st = "s\<lparr>app_thread_queue := (app_thread_queue s)\<lparr>q_items := rest\<rparr>\<rparr>"
  let ?r = "ready_to_spawn nm p ?st"
  let ?hdr = "flash_load_app_header pf (app_slot_id rec)"
  show ?thesis
  proof (cases "load_app pf rec ?r")
    case (Inl f)
    have "\<not> stays_in_arena pf rec (app_stack_heap ?r)"
      using load_app_returns [of pf rec ?r] Inl by auto
    then have "\<not> stays_in_arena pf rec (app_stack_heap s)"
      by (simp add: ready_to_spawn_state)
    moreover from thread_faults [OF assms Inl]
    have "\<exists>s'. appmanager_app_thread pf s = Some (Faulted Out_of_arena, s')"
      by (rule exI)
    ultimately show ?thesis
      by (intro disjI2 conjI)
  next
    case (Inr s')
    note l = thread_loads [OF assms Inr]
    have w: "rest = [] \<longrightarrow> appmanager_app_thread pf s = Some (Waiting, s')"
      using l(1,2) thread_empty_queue [of s' pf] by simp
    have tr: "\<exists>es. trace s' = trace s @ es @
       [AppHeapInit (MAX_APP_MEMORY_SIZE pf - virtual_size ?hdr - MAX_APP_STACK_SIZE pf * 4)
          (arena_base pf + virtual_size ?hdr),
        TaskCreateStatic (dynapp_task pf ?hdr)]"
      using l(5) by (simp add: heap_size_def)
    show ?thesis
      by (rule disjI1, rule exI [of _ s'], intro conjI) (fact l(1) w l(2) l(3) l(4) tr)+
  qed
qed

text \<open>
  The image above has a virtual size of 40 bytes and two relocation entries: 40 + 32
  exceeds the 64 bytes of the arena, the load is carried through, the heap size is
  \<^verbatim>\<open>0xFFFFFFF8\<close>, the task is created and the thread waits.
\<close>

lemma got_request:
  "manifest (heap (loader_state [start_message ''TestApp'']))
     (app_manifest_head (loader_state [start_message ''TestApp''])) [1, 3]"
  "q_items (app_thread_queue (loader_state [start_message ''TestApp''])) =
     start_message ''TestApp'' # []"
  "payload (start_message ''TestApp'') = Name_payload ''TestApp''"
  "List.find (name_matches (heap (loader_state [start_message ''TestApp''])) ''TestApp'') [1, 3]
     = Some 3"
  "heap (loader_state [start_message ''TestApp'']) 3 = Some got_app"
  "\<not> app_is_internal got_app"
proof -
  let ?s = "loader_state [start_message ''TestApp'']"
  show "manifest (heap ?s) (app_manifest_head ?s) [1, 3]"
    by (rule loader_state_manifest)
  show "q_items (app_thread_queue ?s) = start_message ''TestApp'' # []"
    by (simp add: loader_state_def)
  show "payload (start_message ''TestApp'') = Name_payload ''TestApp''"
    by (simp add: start_message_def)
  show "List.find (name_matches (heap ?s) ''TestApp'') [1, 3] = Some 3"
    by (simp add: name_matches_def loader_state_def builtin_app_def face_def cstr_def NUL_def)
  show "heap ?s 3 = Some got_app"
    by (simp add: loader_state_def got_app_def)
  show "\<not> app_is_internal got_app"
    by (simp add: got_app_def face_def)
qed

lemma got_request_stays:
  "stays_in_arena got_platform got_app (app_stack_heap (loader_state rq))"
proof -
  have "app_stack_heap (loader_state rq) = replicate 64 0xAA"
    by (simp add: loader_state_def)
  then show ?thesis
    using got_stays_in_arena by simp
qed

lemma got_sizes:
  "unat (MAX_APP_MEMORY_SIZE got_platform)
     < unat (virtual_size (flash_load_app_header got_platform 7))
       + unat (MAX_APP_STACK_SIZE got_platform) * 4"
  "reloc_entries_count (flash_load_app_header got_platform 7) = 2"
  "heap_size got_platform (flash_load_app_header got_platform 7) = 0xFFFFFFF8"
  "arena_base got_platform + virtual_size (flash_load_app_header got_platform 7) = 0x20000028"
  "app_slot_id got_app = 7"
  by (simp_all add: heap_size_def got_platform_def test_platform_def test_header_def got_app_def)

theorem load_app_makes_no_size_check_witness:
  "unat (MAX_APP_MEMORY_SIZE got_platform)
     < unat (virtual_size (flash_load_app_header got_platform 7))
       + unat (MAX_APP_STACK_SIZE got_platform) * 4 \<and>
   reloc_entries_count (flash_load_app_header got_platform 7) = 2 \<and>
   stays_in_arena got_platform got_app (app_stack_heap (loader_state [start_message ''TestApp''])) \<and>
   (\<exists>s' es. appmanager_app_thread got_platform (loader_state [start_message ''TestApp''])
               = Some (Waiting, s') \<and>
      q_items (app_thread_queue s') = [] \<and> running_app s' = Some 3 \<and>
      app_task_handle s' = Some (dynapp_task got_platform (flash_load_app_header got_platform 7)) \<and>
      trace s' = es @
        [AppHeapInit 0xFFFFFFF8 0x20000028,
         TaskCreateStatic (dynapp_task got_platform (flash_load_app_header got_platform 7))])"
proof -
  let ?s = "loader_state [start_message ''TestApp'']"
  let ?hdr = "flash_load_app_header got_platform 7"
  note st = got_request_stays [of "[start_message ''TestApp'']"]
  from load_app_makes_no_size_check [OF got_request, of got_platform] st obtain s' where s':
    "[] = [] \<longrightarrow> appmanager_app_thread got_platform ?s = Some (Waiting, s')"
    "q_items (app_thread_queue s') = []" "running_app s' = Some 3"
    "app_task_handle s' = Some (dynapp_task got_platform ?hdr)"
    "\<exists>es. trace s' = trace ?s @ es @
       [AppHeapInit
          (MAX_APP_MEMORY_SIZE got_platform - virtual_size ?hdr - MAX_APP_STACK_SIZE got_platform * 4)
          (arena_base got_platform + virtual_size ?hdr),
        TaskCreateStatic (dynapp_task got_platform ?hdr)]"
    unfolding got_sizes(5) by blast
  have t0: "trace ?s = []"
    by (simp add: loader_state_def)
  have hs: "MAX_APP_MEMORY_SIZE got_platform - virtual_size ?hdr - MAX_APP_STACK_SIZE got_platform * 4
      = 0xFFFFFFF8"
    using got_sizes(3) by (simp add: heap_size_def)
  from s'(5) obtain es where "trace s' = es @
        [AppHeapInit 0xFFFFFFF8 0x20000028, TaskCreateStatic (dynapp_task got_platform ?hdr)]"
    unfolding t0 hs got_sizes(4) by auto
  with s'(1-4) have "\<exists>s' es. appmanager_app_thread got_platform ?s = Some (Waiting, s') \<and>
      q_items (app_thread_queue s') = [] \<and> running_app s' = Some 3 \<and>
      app_task_handle s' = Some (dynapp_task got_platform ?hdr) \<and>
      trace s' = es @
        [AppHeapInit 0xFFFFFFF8 0x20000028, TaskCreateStatic (dynapp_task got_platform ?hdr)]"
    by blast
  with got_sizes(1,2) st show ?thesis
    by blast
qed

text \<open>
  The claim as it was stated (such a load fails, no task is spawned) fails on this input:
  the manager thread serves the start request, creates the task, whose stack overlaps the
  bss, with a heap size of -8 read as signed, and waits for the next request.
\<close>

theorem oversize_app_spawned_counterexample:
  "unat (MAX_APP_MEMORY_SIZE got_platform)
     < unat (virtual_size (flash_load_app_header got_platform 7))
       + unat (MAX_APP_STACK_SIZE got_platform) * 4 \<and>
   sint (heap_size got_platform (flash_load_app_header got_platform 7)) = - 8 \<and>
   map_option fst (appmanager_app_thread got_platform (loader_state [start_message ''TestApp'']))
     = Some Waiting \<and>
   app_task_handle (snd (the (appmanager_app_thread got_platform
      (loader_state [start_message ''TestApp'']))))
     = Some (dynapp_task got_platform (flash_load_app_header got_platform 7)) \<and>
   last (trace (snd (the (appmanager_app_thread got_platform
      (loader_state [start_message ''TestApp''])))))
     = TaskCreateStatic (dynapp_task got_platform (flash_load_app_header got_platform 7))"
proof -
  let ?s = "loader_state [start_message ''TestApp'']"
  let ?st = "?s\<lparr>app_thread_queue := (app_thread_queue ?s)\<lparr>q_items := []\<rparr>\<rparr>"
  let ?hdr = "flash_load_app_header got_platform 7"
  have "stays_in_arena got_platform got_app (app_stack_heap (ready_to_spawn ''TestApp'' 3 ?st))"
    using got_request_stays [of "[start_message ''TestApp'']"] by (simp add: ready_to_spawn_state)
  from load_app_returns [OF this] obtain s' where
    l: "load_app got_platform got_app (ready_to_spawn ''TestApp'' 3 ?st) = Inr s'"
    by blast
  note t = thread_loads [OF got_request l]
  from t(1,2) have run: "appmanager_app_thread got_platform ?s = Some (Waiting, s')"
    using thread_empty_queue [of s' got_platform] by simp
  from t(4) have h: "app_task_handle s' = Some (dynapp_task got_platform ?hdr)"
    unfolding got_sizes(5) .
  from t(5) have "last (trace s') =
      TaskCreateStatic (dynapp_task got_platform (flash_load_app_header got_platform (app_slot_id got_app)))"
    by auto
  then have la: "last (trace s') = TaskCreateStatic (dynapp_task got_platform ?hdr)"
    unfolding got_sizes(5) .
  have "sint (heap_size got_platform ?hdr) = - 8"
    unfolding got_sizes(3) by simp
  with got_sizes(1) h la show ?thesis
    unfolding run by simp
qed

subsection \<open>A start request for an unknown name\<close>

lemma thread_unknown_name:
  assumes "manifest (heap s) (app_manifest_head s) as" and "as \<noteq> []"
    and "List.find (name_matches (heap s) nm) as = None"
    and "q_items (app_thread_queue s) = am # rest" and "payload am = Name_payload nm"
  shows "appmanager_app_thread pf s =
     Some (Returned,
           emits [KERN_LOG ''app'' APP_LOG_LEVEL_INFO ''Starting app %s'' [Str (cstr nm)],
                  QueueReset Message_queue,
                  KERN_LOG ''app'' APP_LOG_LEVEL_ERROR ''NO App Found %s'' [Str (cstr nm)]]
             (s\<lparr>app_thread_queue := (app_thread_queue s)\<lparr>q_items := rest\<rparr>,
                app_message_queue := xQueueReset (app_message_queue s)\<rparr>))"
proof -
  let ?st = "s\<lparr>app_thread_queue := (app_thread_queue s)\<lparr>q_items := rest\<rparr>\<rparr>"
  have "manifest (heap ?st) (app_manifest_head ?st) as"
    "List.find (name_matches (heap ?st) nm) as = None"
    using assms(1,3) by simp_all
  from thread_body_not_found [OF this(1) assms(2) this(2) assms(5), of pf] assms(4)
  show ?thesis
    by (subst appmanager_app_thread.simps) simp
qed

text \<open>
  Claim C2 against the code. With the manifest holding System and TestApp and the start
  requests \<^verbatim>\<open>Nope\<close> and \<^verbatim>\<open>System\<close> waiting, the manager thread takes \<^verbatim>\<open>Nope\<close>, finds no record
  and executes \<^verbatim>\<open>return\<close>: the thread function has returned, the request for \<^verbatim>\<open>System\<close> is
  still in the thread queue and no task has been created. The thread does not go back
  to \<^verbatim>\<open>xQueueReceive\<close>.
\<close>

theorem unknown_name_ends_manager_thread:
  "map_option fst (appmanager_app_thread relocation_platform
      (loader_state [start_message ''Nope'', start_message ''System''])) = Some Returned \<and>
   map_option (\<lambda>r. q_items (app_thread_queue (snd r)))
     (appmanager_app_thread relocation_platform
       (loader_state [start_message ''Nope'', start_message ''System''])) =
     Some [start_message ''System''] \<and>
   map_option (\<lambda>r. app_task_handle (snd r))
     (appmanager_app_thread relocation_platform
       (loader_state [start_message ''Nope'', start_message ''System''])) = Some None"
proof -
  let ?s = "loader_state [start_message ''Nope'', start_message ''System'']"
  have f: "List.find (name_matches (heap ?s) ''Nope'') [1, 3] = None"
    by (simp add: name_matches_def loader_state_def builtin_app_def face_def cstr_def NUL_def)
  have q: "q_items (app_thread_queue ?s) = [start_message ''Nope'', start_message ''System'']"
    by (simp add: loader_state_def)
  have p: "payload (start_message ''Nope'') = Name_payload ''Nope''"
    by (simp add: start_message_def)
  have ne: "[1, 3 :: addr] \<noteq> []"
    by simp
  from thread_unknown_name [OF loader_state_manifest ne f q p, of relocation_platform]
  show ?thesis
    by (simp add: emits_def loader_state_def)
qed


subsection \<open>The manifest through an execution\<close>

text \<open>
  The invariant of the store: every record was allocated, and the chain from
  \<^verbatim>\<open>_app_manifest_head\<close> ends in NULL.
\<close>

definition manifest_inv :: "am_state \<Rightarrow> bool" where
  "manifest_inv s = (heap_ok s \<and> (\<exists>as. manifest (heap s) (app_manifest_head s) as))"

lemma manifest_inv_same:
  assumes "heap s' = heap s" and "brk s' = brk s" and "app_manifest_head s' = app_manifest_head s"
  shows "manifest_inv s' = manifest_inv s"
  using assms by (simp add: manifest_inv_def heap_ok_def)

lemma manifest_inv_emit: "manifest_inv (emit e s) = manifest_inv s"
  by (rule manifest_inv_same) (simp_all add: emit_fields)

lemma insert_inv:
  assumes "manifest_inv s"
  shows "\<exists>app s1 s2. appmanager_create_app nm ty entry internal slot s = (app, s1) \<and>
           appmanager_add_to_manifest app s1 = Some s2 \<and> manifest_inv s2"
proof -
  from assms obtain as where ok: "heap_ok s" and m: "manifest (heap s) (app_manifest_head s) as"
    by (auto simp add: manifest_inv_def)
  obtain app s1 where c: "appmanager_create_app nm ty entry internal slot s = (app, s1)"
    by (cases "appmanager_create_app nm ty entry internal slot s")
  have ok1: "heap_ok s1"
    using ok c by (rule heap_ok_create)
  from c show ?thesis
  proof (cases rule: create_app_cases)
    case failed
    then have m1: "manifest (heap s1) (app_manifest_head s1) as"
      using m by (simp add: statics_def)
    from add_to_manifest_None [OF m1] ok1 m1 c failed(1) show ?thesis
      by (auto simp add: manifest_inv_def)
  next
    case created
    let ?p = "brk s"
    have "?p \<notin> dom (heap s)"
      using ok by (auto simp add: heap_ok_def)
    then have nin: "?p \<notin> set as"
      using m manifest_in_dom by blast
    have m1: "manifest (heap s1) (app_manifest_head s1) as"
      using m nin created(4) by (simp add: created(2) manifest_upd_outside statics_def)
    obtain rp where rp: "heap s1 ?p = Some rp" "app_next rp = None"
      by (simp add: created(2))
    from add_to_manifest_Some [OF m1 rp nin] obtain s2 where s2:
      "appmanager_add_to_manifest (Some ?p) s1 = Some s2"
      "manifest (heap s2) (app_manifest_head s2) (as @ [?p])"
      "dom (heap s2) = dom (heap s1)"
      "s2 = s1\<lparr>heap := heap s2, app_manifest_head := app_manifest_head s2\<rparr>"
      by blast
    have "brk s2 = brk s1"
      by (subst s2(4)) simp
    with ok1 s2(3) have "heap_ok s2"
      by (simp add: heap_ok_def)
    with s2(1,2) c created(1) show ?thesis
      by (auto simp add: manifest_inv_def)
  qed
qed

lemma scan_inv:
  assumes "32 - i = n" and "manifest_inv s"
  shows "\<exists>s'. flash_load_app_manifest_from pf i s = Some s' \<and> manifest_inv s'"
  using assms
proof (induction n arbitrary: i s)
  case 0
  then show ?case
    by (subst flash_load_app_manifest_from.simps) simp
next
  case (Suc n)
  then have i: "i < 32" and n: "32 - Suc i = n"
    by simp_all
  let ?hdr = "flash_load_app_header pf (of_nat i)"
  let ?t = "emit (Flash_load_app_header (of_nat i)) s"
  show ?case
  proof (cases "strncmp (header ?hdr) ''PBLAPP'' 6 = 0")
    case False
    have "manifest_inv ?t"
      using Suc.prems(2) by (simp add: manifest_inv_emit)
    from Suc.IH [OF n this] False i show ?thesis
      by (subst flash_load_app_manifest_from.simps) (simp add: Let_def)
  next
    case True
    let ?u = "emit (KERN_LOG ''app'' APP_LOG_LEVEL_INFO ''VALID App Found %s''
                      [Str (cstr (name_chars ?hdr))]) ?t"
    have "manifest_inv ?u"
      using Suc.prems(2) by (simp add: manifest_inv_emit)
    from insert_inv [OF this, of "name_chars ?hdr" APP_TYPE_FACE None False "of_nat i"]
    obtain app s1 s2 where ins:
      "appmanager_create_app (name_chars ?hdr) APP_TYPE_FACE None False (of_nat i) ?u = (app, s1)"
      "appmanager_add_to_manifest app s1 = Some s2" "manifest_inv s2"
      by blast
    from Suc.IH [OF n ins(3)] obtain s' where
      "flash_load_app_manifest_from pf (Suc i) s2 = Some s'" "manifest_inv s'"
      by blast
    with True i ins(1,2) show ?thesis
      by (subst flash_load_app_manifest_from.simps) (simp add: Let_def)
  qed
qed

lemma init_inv:
  assumes "manifest_inv s"
  shows "\<exists>s'. appmanager_init pf s = Some s' \<and> manifest_inv s'"
proof -
  from insert_inv [OF assms, of "''System''" APP_TYPE_SYSTEM "Some systemapp_main" True 0]
  obtain app1 s1 s2 where a:
    "appmanager_create_app ''System'' APP_TYPE_SYSTEM (Some systemapp_main) True 0 s = (app1, s1)"
    "appmanager_add_to_manifest app1 s1 = Some s2" "manifest_inv s2"
    by blast
  from insert_inv [OF a(3), of "''Simple''" APP_TYPE_FACE "Some simple_main" True 0]
  obtain app2 s3 s4 where b:
    "appmanager_create_app ''Simple'' APP_TYPE_FACE (Some simple_main) True 0 s2 = (app2, s3)"
    "appmanager_add_to_manifest app2 s3 = Some s4" "manifest_inv s4"
    by blast
  from insert_inv [OF b(3), of "''NiVZ''" APP_TYPE_FACE "Some nivz_main" True 0]
  obtain app3 s5 s6 where c:
    "appmanager_create_app ''NiVZ'' APP_TYPE_FACE (Some nivz_main) True 0 s4 = (app3, s5)"
    "appmanager_add_to_manifest app3 s5 = Some s6" "manifest_inv s6"
    by blast
  have "manifest_inv (s6\<lparr>app_task_handle := None\<rparr>)"
    using c(3) by (simp add: manifest_inv_def heap_ok_def)
  from scan_inv [OF _ this, of 0 32 pf] obtain s7 where d:
    "flash_load_app_manifest_from pf 0 (s6\<lparr>app_task_handle := None\<rparr>) = Some s7"
    "manifest_inv s7"
    by auto
  obtain s' where s': "appmanager_init pf s = Some s'" "heap s' = heap s7"
    "brk s' = brk s7" "app_manifest_head s' = app_manifest_head s7"
    using a(1,2) b(1,2) c(1,2) d(1)
    by (simp add: appmanager_init_def appmanager_flash_load_app_manifest_def Let_def
        emit_fields app_start_heap)
  from manifest_inv_same [OF s'(2,3,4)] d(2) s'(1) show ?thesis
    by simp
qed

lemma get_app_first_prefix:
  assumes "manifest (heap s) (app_manifest_head s) as"
  shows "\<exists>s'. appmanager_get_app query s =
           Some (List.find (name_matches (heap s) query) as, s')"
  using find_app_manifest [OF assms, of query]
  by (cases "List.find (name_matches (heap s) query) as")
    (simp_all add: appmanager_get_app_def)

lemma boot_inv: "manifest_inv (boot_state pf outcomes)"
proof -
  have "manifest (heap (boot_state pf outcomes)) (app_manifest_head (boot_state pf outcomes)) []"
    by (simp add: boot_state_def)
  moreover have "heap_ok (boot_state pf outcomes)"
    by (simp add: heap_ok_def boot_state_def)
  ultimately show ?thesis
    unfolding manifest_inv_def by (intro conjI exI)
qed

lemma get_app_store:
  assumes "appmanager_get_app query s = Some (r, s')"
  shows "heap s' = heap s \<and> brk s' = brk s \<and> app_manifest_head s' = app_manifest_head s"
  using get_app_state [OF assms] by simp

lemma load_app_store:
  assumes "load_app pf app s = Inr s'"
  shows "heap s' = heap s \<and> brk s' = brk s \<and> app_manifest_head s' = app_manifest_head s"
  using load_app_state [OF assms] by simp

lemma thread_body_store:
  assumes "app_thread_body pf am s = Some (r, s')"
  shows "heap s' = heap s \<and> brk s' = brk s \<and> app_manifest_head s' = app_manifest_head s"
  using assms unfolding app_thread_body_def Let_def
  by (auto split: if_splits option.splits sum.splits
      dest!: get_app_store load_app_store
      simp add: emits_def emit_def spawn_internal_def)

lemma thread_store:
  assumes "appmanager_app_thread pf s = Some (r, s')"
  shows "heap s' = heap s \<and> brk s' = brk s \<and> app_manifest_head s' = app_manifest_head s"
  using assms
proof (induction pf s rule: appmanager_app_thread.induct)
  case (1 pf s)
  show ?case
  proof (cases "q_items (app_thread_queue s)")
    case Nil
    with "1.prems" show ?thesis
      by (subst (asm) appmanager_app_thread.simps) simp
  next
    case (Cons am rest)
    let ?t = "s\<lparr>app_thread_queue := (app_thread_queue s)\<lparr>q_items := rest\<rparr>\<rparr>"
    from "1.prems" Cons obtain res t' where b: "app_thread_body pf am ?t = Some (res, t')"
      by (subst (asm) appmanager_app_thread.simps) (auto split: option.splits)
    from thread_body_store [OF b]
    have st: "heap t' = heap s \<and> brk t' = brk s \<and> app_manifest_head t' = app_manifest_head s"
      by simp
    show ?thesis
    proof (cases res)
      case None
      with "1.prems" Cons b have "appmanager_app_thread pf t' = Some (r, s')"
        by (subst (asm) appmanager_app_thread.simps) simp
      with "1.IH" [OF Cons b refl] None st show ?thesis
        by simp
    next
      case (Some x)
      with "1.prems" Cons b have "s' = t'"
        by (subst (asm) appmanager_app_thread.simps) simp
      with st show ?thesis
        by simp
    qed
  qed
qed


text \<open>
  The states of an execution: the state \<^verbatim>\<open>appmanager_init\<close> leaves at boot, and from there
  any sequence of calls of the control surface, runs of the manager thread and turns of
  the event loop.
\<close>

inductive reachable :: "platform \<Rightarrow> am_state \<Rightarrow> bool" for pf :: platform where
  booted: "appmanager_init pf (boot_state pf outcomes) = Some s \<Longrightarrow> reachable pf s"
| started: "reachable pf s \<Longrightarrow> reachable pf (appmanager_app_start nm s)"
| quit: "reachable pf s \<Longrightarrow> reachable pf (appmanager_app_quit s)"
| button: "reachable pf s \<Longrightarrow> reachable pf (appmanager_post_button_message bmessage s)"
| tick: "reachable pf s \<Longrightarrow> reachable pf (appmanager_post_tick_message tmessage s)"
| manager: "reachable pf s \<Longrightarrow> appmanager_app_thread pf s = Some (r, s') \<Longrightarrow> reachable pf s'"
| loop_entered: "reachable pf s \<Longrightarrow> app_event_loop_enter s = Inr s' \<Longrightarrow> reachable pf s'"
| loop_turned: "reachable pf s \<Longrightarrow> app_event_loop_turn s = (l, s') \<Longrightarrow> reachable pf s'"

code_pred reachable .

lemma send_message_queue_store:
  "heap (send_message_queue am ticks s) = heap s \<and> brk (send_message_queue am ticks s) = brk s \<and>
   app_manifest_head (send_message_queue am ticks s) = app_manifest_head s"
  by (simp add: send_message_queue_def emit_def split: prod.splits)

lemma post_tick_store:
  "heap (appmanager_post_tick_message t s) = heap s \<and>
   brk (appmanager_post_tick_message t s) = brk s \<and>
   app_manifest_head (appmanager_post_tick_message t s) = app_manifest_head s"
  by (simp add: appmanager_post_tick_message_def Let_def emit_def split: prod.splits)

lemma loop_enter_store:
  assumes "app_event_loop_enter s = Inr s'"
  shows "heap s' = heap s \<and> brk s' = brk s \<and> app_manifest_head s' = app_manifest_head s"
  using assms
  by (auto simp add: app_event_loop_enter_def Let_def emit_def split: option.splits if_splits)

lemma loop_turn_store:
  assumes "app_event_loop_turn s = (l, s')"
  shows "heap s' = heap s \<and> brk s' = brk s \<and> app_manifest_head s' = app_manifest_head s"
  using assms
  by (auto simp add: app_event_loop_turn_def Let_def emit_def
      split: list.splits if_splits payload_ptr.splits)

lemma reachable_inv: "reachable pf s \<Longrightarrow> manifest_inv s"
proof (induction rule: reachable.induct)
  case (booted outcomes s)
  with init_inv [OF boot_inv [of pf outcomes], of pf] show ?case
    by auto
next
  case (started s nm)
  then show ?case
    using manifest_inv_same [of "appmanager_app_start nm s" s] by (simp add: app_start_heap)
next
  case (quit s)
  then show ?case
    using manifest_inv_same [of "appmanager_app_quit s" s]
    by (simp add: appmanager_app_quit_def send_message_queue_store)
next
  case (button s bmessage)
  then show ?case
    using manifest_inv_same [of "appmanager_post_button_message bmessage s" s]
    by (simp add: appmanager_post_button_message_def send_message_queue_store)
next
  case (tick s tmessage)
  then show ?case
    using manifest_inv_same [of "appmanager_post_tick_message tmessage s" s]
    by (simp add: post_tick_store)
next
  case (manager s r s')
  then show ?case
    using manifest_inv_same [of s' s] thread_store [of pf s r s'] by simp
next
  case (loop_entered s s')
  then show ?case
    using manifest_inv_same [of s' s] loop_enter_store [of s s'] by simp
next
  case (loop_turned s l s')
  then show ?case
    using manifest_inv_same [of s' s] loop_turn_store [of s l s'] by simp
qed

lemma name_matches_self: "heap s a = Some r \<Longrightarrow> name_matches (heap s) (app_name r) a"
  by (simp add: name_matches_def)

text \<open>
  Claim C5, as the code has it. In every state of an execution the manifest is a chain of
  pairwise different records ending in NULL, so that it holds each record at most once;
  and for every record of the manifest, \<^verbatim>\<open>appmanager_get_app\<close> called with that record's
  exact name returns the first record in insertion order whose stored name is a prefix of
  that name: the record itself when no record inserted before it has such a name, a
  record inserted before it otherwise.
\<close>

theorem manifest_once_and_lookup_first_prefix:
  assumes "reachable pf s"
  shows "\<exists>as. manifest (heap s) (app_manifest_head s) as \<and> distinct as \<and>
           (\<forall>k. k < length as \<longrightarrow>
              (\<exists>r j. heap s (as ! k) = Some r \<and> j \<le> k \<and>
                 map_option fst (appmanager_get_app (app_name r) s) = Some (Some (as ! j)) \<and>
                 name_matches (heap s) (app_name r) (as ! j) \<and>
                 (\<forall>i. i < j \<longrightarrow> \<not> name_matches (heap s) (app_name r) (as ! i))))"
proof -
  from reachable_inv [OF assms] obtain as where m: "manifest (heap s) (app_manifest_head s) as"
    by (auto simp add: manifest_inv_def)
  have "\<exists>r j. heap s (as ! k) = Some r \<and> j \<le> k \<and>
                 map_option fst (appmanager_get_app (app_name r) s) = Some (Some (as ! j)) \<and>
                 name_matches (heap s) (app_name r) (as ! j) \<and>
                 (\<forall>i. i < j \<longrightarrow> \<not> name_matches (heap s) (app_name r) (as ! i))"
    if k: "k < length as" for k
  proof -
    from k have "as ! k \<in> set as"
      by simp
    with m obtain r where r: "heap s (as ! k) = Some r"
      using manifest_in_dom by blast
    let ?P = "name_matches (heap s) (app_name r)"
    have pk: "?P (as ! k)"
      using r by (rule name_matches_self)
    with \<open>as ! k \<in> set as\<close> have "List.find ?P as \<noteq> None"
      by (auto simp add: find_None_iff)
    then obtain x where x: "List.find ?P as = Some x"
      by auto
    then obtain j where j: "j < length as" "?P (as ! j)" "x = as ! j" "\<forall>i<j. \<not> ?P (as ! i)"
      by (auto simp add: find_Some_iff)
    from j(4) pk have "j \<le> k"
      by (meson not_le)
    moreover from get_app_first_prefix [OF m, of "app_name r"] x j(3)
    have "map_option fst (appmanager_get_app (app_name r) s) = Some (Some (as ! j))"
      by auto
    ultimately show ?thesis
      using r j(2,4) by blast
  qed
  with m manifest_distinct [OF m] show ?thesis
    by blast
qed

lemma name_matches_unlinked:
  assumes "map_option unlinked (h a) = Some rec"
  shows "name_matches h query a = prefix (cstr (app_name rec)) (cstr query)"
proof -
  from assms obtain r where "h a = Some r" "unlinked r = rec"
    by auto
  then show ?thesis
    by (auto simp add: name_matches_def unlinked_def)
qed

lemma app_name_unlinked:
  assumes "map_option unlinked (h a) = Some rec"
  shows "map_option app_name (h a) = Some (app_name rec)"
proof -
  from assms obtain r where r: "h a = Some r" "unlinked r = rec"
    by auto
  from r(2) have "app_name rec = app_name r"
    by (auto simp add: unlinked_def)
  with r(1) show ?thesis
    by simp
qed

text \<open>A flash whose slot 0 holds an application named \<^verbatim>\<open>Simple Watch\<close>.\<close>

definition simple_watch_platform :: platform where
  "simple_watch_platform =
     test_platform
       (\<lambda>slot. if slot = 0 then test_header ''Simple Watch'' 16 8 4 0 24 else blank_header)
       (\<lambda>slot k. 0)"

lemma upt_1_32:
  "[Suc 0..<32] =
     [1, 2, 3, 4, 5, 6, 7, 8, 9, 10, 11, 12, 13, 14, 15, 16, 17, 18, 19, 20, 21, 22, 23,
      24, 25, 26, 27, 28, 29, 30, 31 :: nat]"
  by code_simp

lemma simple_watch_magic:
  "has_magic simple_watch_platform 0"
  "filter (has_magic simple_watch_platform) [Suc 0..<32] = []"
  by (simp_all add: upt_1_32 has_magic_def simple_watch_platform_def test_platform_def
      test_header_def blank_header_def)

lemma simple_watch_init:
  "\<exists>s. appmanager_init simple_watch_platform (boot_state simple_watch_platform []) = Some s \<and>
       manifest (heap s) (app_manifest_head s) [1, 3, 5, 7] \<and>
       map (\<lambda>a. map_option unlinked (heap s a)) [1, 3, 5, 7] =
         [Some (builtin_app ''System'' APP_TYPE_SYSTEM systemapp_main),
          Some (builtin_app ''Simple'' APP_TYPE_FACE simple_main),
          Some (builtin_app ''NiVZ'' APP_TYPE_FACE nivz_main),
          Some (face ''Simple Watch'' None)]"
proof -
  let ?pf = simple_watch_platform
  have "False \<notin> set []"
    by simp
  from builtins_inserted [OF this, of ?pf] obtain s6 where s6:
    "heap_ok s6" "manifest (heap s6) (app_manifest_head s6) [1, 3, 5]"
    "map (\<lambda>a. map_option unlinked (heap s6 a)) [1, 3, 5] =
             [Some (builtin_app ''System'' APP_TYPE_SYSTEM systemapp_main),
              Some (builtin_app ''Simple'' APP_TYPE_FACE simple_main),
              Some (builtin_app ''NiVZ'' APP_TYPE_FACE nivz_main)]"
    "False \<notin> set (allocs s6)" "brk s6 = 7"
    "\<forall>s7. appmanager_flash_load_app_manifest ?pf (s6\<lparr>app_task_handle := None\<rparr>) = Some s7
              \<longrightarrow> (\<exists>s'. appmanager_init ?pf (boot_state ?pf []) = Some s' \<and>
                     heap s' = heap s7 \<and> app_manifest_head s' = app_manifest_head s7)"
    by (elim exE conjE)
  let ?t = "s6\<lparr>app_task_handle := None\<rparr>"
  let ?hdr = "flash_load_app_header ?pf (of_nat 0)"
  let ?u = "emit (KERN_LOG ''app'' APP_LOG_LEVEL_INFO ''VALID App Found %s''
                    [Str (cstr (name_chars ?hdr))])
              (emit (Flash_load_app_header (of_nat 0)) ?t)"
  have pre: "heap_ok ?u" "manifest (heap ?u) (app_manifest_head ?u) [1, 3, 5]"
    "False \<notin> set (allocs ?u)"
    using s6(1,2,4) by (simp_all add: heap_ok_def emit_fields)
  have bu: "brk ?u = 7"
    using s6(5) by (simp add: emit_fields)
  have rec: "\<lparr>app_name = strcpy (name_chars ?hdr), app_main = None, app_type = APP_TYPE_FACE,
      app_header = None, app_next = None, app_slot_id = of_nat 0, app_is_internal = False\<rparr>
      = face ''Simple Watch'' None"
    by (simp add: face_def strcpy_def simple_watch_platform_def test_platform_def
        name_chars_test_header NUL_def)
  from insert_created [OF pre, of "name_chars ?hdr" APP_TYPE_FACE None False "of_nat 0"]
  obtain s1 s2 where ins:
    "appmanager_create_app (name_chars ?hdr) APP_TYPE_FACE None False (of_nat 0) ?u = (Some 7, s1)"
    "appmanager_add_to_manifest (Some 7) s1 = Some s2"
    "heap_ok s2" "manifest (heap s2) (app_manifest_head s2) ([1, 3, 5] @ [7])"
    "map_option unlinked (heap s2 7) = Some (face ''Simple Watch'' None)"
    "\<forall>a \<in> set [1, 3, 5]. map_option unlinked (heap s2 a) = map_option unlinked (heap ?u a)"
    "False \<notin> set (allocs s2)"
    unfolding bu rec by blast
  have magic: "strncmp (header ?hdr) ''PBLAPP'' 6 = 0"
    using simple_watch_magic(1) by (simp add: strncmp_magic has_magic_def)
  have step: "flash_load_app_manifest_from ?pf 0 ?t = flash_load_app_manifest_from ?pf (Suc 0) s2"
    using magic ins(1,2) by (subst flash_load_app_manifest_from.simps) (simp add: Let_def)
  have "32 - Suc 0 = (31::nat)"
    by simp
  from scan_from [OF this ins(3,4,7), of ?pf] obtain s7 new where r:
    "flash_load_app_manifest_from ?pf (Suc 0) s2 = Some s7"
    "manifest (heap s7) (app_manifest_head s7) (([1, 3, 5] @ [7]) @ new)"
    "map (\<lambda>a. map_option unlinked (heap s7 a)) new =
       map (\<lambda>j. Some (scanned_app ?pf j)) (filter (has_magic ?pf) [Suc 0..<32])"
    "\<forall>a \<in> set ([1, 3, 5] @ [7]). map_option unlinked (heap s7 a) = map_option unlinked (heap s2 a)"
    by blast
  from r(3) have new: "new = []"
    by (simp add: simple_watch_magic(2))
  from step r(1) have "appmanager_flash_load_app_manifest ?pf ?t = Some s7"
    by (simp add: appmanager_flash_load_app_manifest_def)
  with s6(6) obtain s where s: "appmanager_init ?pf (boot_state ?pf []) = Some s"
    "heap s = heap s7" "app_manifest_head s = app_manifest_head s7"
    by blast
  have m: "manifest (heap s) (app_manifest_head s) [1, 3, 5, 7]"
    using r(2) by (simp add: new s)
  have u: "map (\<lambda>a. map_option unlinked (heap s a)) [1, 3, 5, 7] =
         [Some (builtin_app ''System'' APP_TYPE_SYSTEM systemapp_main),
          Some (builtin_app ''Simple'' APP_TYPE_FACE simple_main),
          Some (builtin_app ''NiVZ'' APP_TYPE_FACE nivz_main),
          Some (face ''Simple Watch'' None)]"
    using r(4) ins(5,6) s6(3) by (simp add: s emit_fields)
  from s(1) m u show ?thesis
    by (intro exI [of _ s] conjI)
qed


text \<open>The state \<^verbatim>\<open>appmanager_init\<close> leaves at boot on this platform.\<close>

definition simple_watch_state :: am_state where
  "simple_watch_state =
     the (appmanager_init simple_watch_platform (boot_state simple_watch_platform []))"

lemma simple_watch_state:
  "reachable simple_watch_platform simple_watch_state"
  "manifest (heap simple_watch_state) (app_manifest_head simple_watch_state) [1, 3, 5, 7]"
  "map (\<lambda>a. map_option unlinked (heap simple_watch_state a)) [1, 3, 5, 7] =
     [Some (builtin_app ''System'' APP_TYPE_SYSTEM systemapp_main),
      Some (builtin_app ''Simple'' APP_TYPE_FACE simple_main),
      Some (builtin_app ''NiVZ'' APP_TYPE_FACE nivz_main),
      Some (face ''Simple Watch'' None)]"
proof -
  from simple_watch_init obtain s where s:
    "appmanager_init simple_watch_platform (boot_state simple_watch_platform []) = Some s"
    "manifest (heap s) (app_manifest_head s) [1, 3, 5, 7]"
    "map (\<lambda>a. map_option unlinked (heap s a)) [1, 3, 5, 7] =
         [Some (builtin_app ''System'' APP_TYPE_SYSTEM systemapp_main),
          Some (builtin_app ''Simple'' APP_TYPE_FACE simple_main),
          Some (builtin_app ''NiVZ'' APP_TYPE_FACE nivz_main),
          Some (face ''Simple Watch'' None)]"
    by (elim exE conjE)
  then have e: "simple_watch_state = s"
    by (simp add: simple_watch_state_def)
  from s(1) show "reachable simple_watch_platform simple_watch_state"
    unfolding e by (rule reachable.booted)
  from s(2) show
    "manifest (heap simple_watch_state) (app_manifest_head simple_watch_state) [1, 3, 5, 7]"
    unfolding e .
  from s(3) show "map (\<lambda>a. map_option unlinked (heap simple_watch_state a)) [1, 3, 5, 7] =
     [Some (builtin_app ''System'' APP_TYPE_SYSTEM systemapp_main),
      Some (builtin_app ''Simple'' APP_TYPE_FACE simple_main),
      Some (builtin_app ''NiVZ'' APP_TYPE_FACE nivz_main),
      Some (face ''Simple Watch'' None)]"
    unfolding e .
qed

lemma simple_watch_names:
  "name_matches (heap simple_watch_state) query (Suc 0) = prefix ''System'' (cstr query)"
  "name_matches (heap simple_watch_state) query 3 = prefix ''Simple'' (cstr query)"
  "name_matches (heap simple_watch_state) query 5 = prefix ''NiVZ'' (cstr query)"
  "name_matches (heap simple_watch_state) query 7 = prefix ''Simple Watch'' (cstr query)"
  "map_option app_name (heap simple_watch_state 5) = Some ''NiVZ''"
  "map_option app_name (heap simple_watch_state 7) = Some ''Simple Watch''"
proof -
  from simple_watch_state(3) have u:
    "map_option unlinked (heap simple_watch_state 1) =
       Some (builtin_app ''System'' APP_TYPE_SYSTEM systemapp_main)"
    "map_option unlinked (heap simple_watch_state 3) =
       Some (builtin_app ''Simple'' APP_TYPE_FACE simple_main)"
    "map_option unlinked (heap simple_watch_state 5) =
       Some (builtin_app ''NiVZ'' APP_TYPE_FACE nivz_main)"
    "map_option unlinked (heap simple_watch_state 7) = Some (face ''Simple Watch'' None)"
    by (simp_all del: One_nat_def)
  show "name_matches (heap simple_watch_state) query (Suc 0) = prefix ''System'' (cstr query)"
    using name_matches_unlinked [where h = "heap simple_watch_state" and a = 1, OF u(1)]
    by (simp add: builtin_app_def cstr_def NUL_def)
  show "name_matches (heap simple_watch_state) query 3 = prefix ''Simple'' (cstr query)"
    using name_matches_unlinked [where h = "heap simple_watch_state" and a = 3, OF u(2)]
    by (simp add: builtin_app_def cstr_def NUL_def)
  show "name_matches (heap simple_watch_state) query 5 = prefix ''NiVZ'' (cstr query)"
    using name_matches_unlinked [where h = "heap simple_watch_state" and a = 5, OF u(3)]
    by (simp add: builtin_app_def cstr_def NUL_def)
  show "name_matches (heap simple_watch_state) query 7 = prefix ''Simple Watch'' (cstr query)"
    using name_matches_unlinked [where h = "heap simple_watch_state" and a = 7, OF u(4)]
    by (simp add: face_def cstr_def NUL_def)
  show "map_option app_name (heap simple_watch_state 5) = Some ''NiVZ''"
    using app_name_unlinked [where h = "heap simple_watch_state" and a = 5, OF u(3)]
    by (simp add: builtin_app_def)
  show "map_option app_name (heap simple_watch_state 7) = Some ''Simple Watch''"
    using app_name_unlinked [where h = "heap simple_watch_state" and a = 7, OF u(4)]
    by (simp add: face_def)
qed

text \<open>
  After a boot with the application \<^verbatim>\<open>Simple Watch\<close> in flash slot 0 the manifest holds four
  records, and the name \<^verbatim>\<open>NiVZ\<close> of the third returns the third.
\<close>

theorem manifest_once_and_lookup_first_prefix_witness:
  "reachable simple_watch_platform simple_watch_state \<and>
   manifest (heap simple_watch_state) (app_manifest_head simple_watch_state) [1, 3, 5, 7] \<and>
   map_option app_name (heap simple_watch_state 5) = Some ''NiVZ'' \<and>
   map_option fst (appmanager_get_app ''NiVZ'' simple_watch_state) = Some (Some 5)"
proof -
  let ?s = simple_watch_state
  from manifest_once_and_lookup_first_prefix [OF simple_watch_state(1)] obtain as where as:
    "manifest (heap ?s) (app_manifest_head ?s) as"
    "\<forall>k. k < length as \<longrightarrow>
              (\<exists>r j. heap ?s (as ! k) = Some r \<and> j \<le> k \<and>
                 map_option fst (appmanager_get_app (app_name r) ?s) = Some (Some (as ! j)) \<and>
                 name_matches (heap ?s) (app_name r) (as ! j) \<and>
                 (\<forall>i. i < j \<longrightarrow> \<not> name_matches (heap ?s) (app_name r) (as ! i)))"
    by (elim exE conjE)
  from as(1) simple_watch_state(2) have e: "as = [1, 3, 5, 7]"
    by (rule manifest_unique)
  have "(2::nat) < length as"
    by (simp add: e)
  with as(2) obtain r j where r: "heap ?s (as ! 2) = Some r" "j \<le> 2"
    "map_option fst (appmanager_get_app (app_name r) ?s) = Some (Some (as ! j))"
    "name_matches (heap ?s) (app_name r) (as ! j)"
    by blast
  from r(1) simple_watch_names(5) have n: "app_name r = ''NiVZ''"
    by (simp add: e)
  from r(2) consider "j = 0" | "j = 1" | "j = 2"
    by linarith
  then have "j = 2"
  proof cases
    case 1
    with r(4) show ?thesis
      by (simp add: e n simple_watch_names cstr_def NUL_def)
  next
    case 2
    with r(4) show ?thesis
      by (simp add: e n simple_watch_names cstr_def NUL_def)
  next
    case 3
    then show ?thesis .
  qed
  with r(3) have "map_option fst (appmanager_get_app ''NiVZ'' ?s) = Some (Some 5)"
    by (simp add: e n)
  with simple_watch_state(1,2) simple_watch_names(5) show ?thesis
    by (intro conjI)
qed

text \<open>
  The claim as it was stated (the exact name of a record returns that record) fails in
  the same state: the fourth record is named \<^verbatim>\<open>Simple Watch\<close>, and looking that name up
  returns the second record, the built-in \<^verbatim>\<open>Simple\<close>.
\<close>

theorem exact_name_lookup_counterexample:
  "reachable simple_watch_platform simple_watch_state \<and>
   manifest (heap simple_watch_state) (app_manifest_head simple_watch_state) [1, 3, 5, 7] \<and>
   map_option app_name (heap simple_watch_state 7) = Some ''Simple Watch'' \<and>
   map_option fst (appmanager_get_app ''Simple Watch'' simple_watch_state) = Some (Some 3)"
proof -
  let ?s = simple_watch_state
  have "List.find (name_matches (heap ?s) ''Simple Watch'') [1, 3, 5, 7] = Some 3"
    by (simp add: simple_watch_names cstr_def NUL_def)
  with get_app_first_prefix [OF simple_watch_state(2), of "''Simple Watch''"]
  have "map_option fst (appmanager_get_app ''Simple Watch'' ?s) = Some (Some 3)"
    by auto
  with simple_watch_state(1,2) simple_watch_names(6) show ?thesis
    by (intro conjI)
qed


end
